(* ===== verification/Prelude.thy ===== *)
theory Prelude
  imports Main "HOL-Library.Word"
begin

text \<open>
  Shared vocabulary of the development: the machine integer types of the Rust
  source, decimal digits (used by the JSON printer and parser alike), the
  last-binding-wins lookup of an association list, and the collections of
  facts the component theories hand to the simplifier.
\<close>

named_theorems json_simps "evaluation rules of the JSON printer and parser"
named_theorems lock_simps "unfolding rules of the reader-writer lock model"

type_synonym u32 = "32 word"
type_synonym u64 = "64 word"

section \<open>Decimal digits\<close>

definition digit_char :: "nat \<Rightarrow> char" where
  "digit_char d = char_of (48 + d)"

definition is_digit :: "char \<Rightarrow> bool" where
  "is_digit c \<longleftrightarrow> (48::nat) \<le> of_char c \<and> of_char c \<le> (57::nat)"

definition digit_val :: "char \<Rightarrow> nat" where
  "digit_val c = of_char c - (48::nat)"

text \<open>\<open>decimal n\<close> is Rust's \<open>Display\<close> of an unsigned integer: its decimal digits,
  most significant first, without leading zeros.\<close>

fun decimal :: "nat \<Rightarrow> string" where
  "decimal n = (if n < 10 then [digit_char n] else decimal (n div 10) @ [digit_char (n mod 10)])"

declare decimal.simps [simp del]

fun digits_value :: "nat \<Rightarrow> string \<Rightarrow> nat" where
  "digits_value acc [] = acc"
| "digits_value acc (c # cs) = digits_value (10 * acc + digit_val c) cs"

section \<open>Last-binding-wins lookup\<close>

text \<open>A JSON object is kept in the order its members were read; Rust's
  \<open>TreeMap::insert\<close> lets a later binding of a key replace an earlier one, so the
  lookup the decoder performs is the lookup of the last binding.\<close>

definition lookup_last :: "('k \<times> 'v) list \<Rightarrow> 'k \<Rightarrow> 'v option" where
  "lookup_last kvs = map_of (rev kvs)"

section \<open>Lemmas on digits\<close>

lemma digit_char_is_digit [simp]: "d < 10 \<Longrightarrow> is_digit (digit_char d)"
  by (simp add: digit_char_def is_digit_def)

lemma digit_val_digit_char [simp]: "d < 10 \<Longrightarrow> digit_val (digit_char d) = d"
  by (simp add: digit_char_def digit_val_def)

lemma digit_char_zero_iff [simp]: "d < 10 \<Longrightarrow> digit_char d = CHR ''0'' \<longleftrightarrow> d = 0"
proof -
  assume "d < 10"
  then have "of_char (digit_char d) = (48 + d :: nat)"
    by (simp add: digit_char_def)
  moreover have "of_char (CHR ''0'') = (48 :: nat)"
    by simp
  ultimately show ?thesis
    by (metis add_cancel_right_right char_of_char)
qed

lemma decimal_nonempty [simp]: "decimal n \<noteq> []"
  by (subst decimal.simps) simp

lemma decimal_all_digits: "\<forall>c \<in> set (decimal n). is_digit c"
proof (induction n rule: decimal.induct)
  case (1 n)
  then show ?case by (subst decimal.simps) auto
qed

lemma digits_value_append:
  "digits_value acc (xs @ ys) = digits_value (digits_value acc xs) ys"
  by (induction xs arbitrary: acc) simp_all

lemma digits_value_decimal: "digits_value 0 (decimal n) = n"
proof (induction n rule: decimal.induct)
  case (1 n)
  show ?case
  proof (cases "n < 10")
    case True
    then show ?thesis by (subst decimal.simps) simp
  next
    case False
    with "1.IH" show ?thesis
      by (subst decimal.simps) (simp add: digits_value_append)
  qed
qed

lemma decimal_hd_nonzero: "0 < n \<Longrightarrow> hd (decimal n) \<noteq> CHR ''0''"
proof (induction n rule: decimal.induct)
  case (1 n)
  show ?case
  proof (cases "n < 10")
    case True
    with "1.prems" show ?thesis by (subst decimal.simps) simp
  next
    case False
    then have "0 < n div 10" by simp
    with "1.IH" False show ?thesis by (subst decimal.simps) simp
  qed
qed

lemma length_decimal_le: "length (decimal n) \<le> Suc n"
proof (induction n rule: decimal.induct)
  case (1 n)
  show ?case
  proof (cases "n < 10")
    case True
    then show ?thesis by (subst decimal.simps) simp
  next
    case False
    with "1.IH" have "length (decimal (n div 10)) \<le> Suc (n div 10)" by simp
    moreover have "Suc (n div 10) < n" using False by simp
    ultimately show ?thesis using False by (subst decimal.simps) simp
  qed
qed

lemma digits_value_ge: "acc \<le> digits_value acc ds"
proof (induction ds arbitrary: acc)
  case Nil
  then show ?case by simp
next
  case (Cons c cs)
  from Cons.IH [of "10 * acc + digit_val c"] show ?case by simp
qed


lemma digit_val_pos: "is_digit c \<Longrightarrow> c \<noteq> CHR ''0'' \<Longrightarrow> 0 < digit_val c"
proof -
  assume d: "is_digit c" and nz: "c \<noteq> CHR ''0''"
  from nz have "of_char c \<noteq> (of_char (CHR ''0'') :: nat)"
    by (metis char_of_char)
  then have "of_char c \<noteq> (48::nat)" by simp
  with d show ?thesis by (simp add: is_digit_def digit_val_def)
qed


lemma decimal_Cons:
  obtains c cs where "decimal m = c # cs" "is_digit c" "0 < m \<Longrightarrow> c \<noteq> CHR ''0''"
proof -
  obtain c cs where dc: "decimal m = c # cs"
    using decimal_nonempty [of m] by (cases "decimal m") auto
  moreover from dc decimal_all_digits [of m] have "is_digit c" by simp
  moreover from dc decimal_hd_nonzero [of m] have "0 < m \<Longrightarrow> c \<noteq> CHR ''0''" by simp
  ultimately show ?thesis by (rule that)
qed


section \<open>Lemmas on association lists and words\<close>

lemma lookup_last_Nil [simp]: "lookup_last [] k = None"
  by (simp add: lookup_last_def)

lemma lookup_last_snoc [simp]:
  "lookup_last (kvs @ [(k, v)]) = (lookup_last kvs)(k \<mapsto> v)"
  by (simp add: lookup_last_def)

lemma lookup_last_Cons_notin [simp]:
  "k' \<noteq> k \<Longrightarrow> lookup_last ((k, v) # kvs) k' = lookup_last kvs k'"
  by (simp add: lookup_last_def map_add_def split: option.split)

lemma lookup_last_Cons_fresh:
  "k \<notin> fst ` set kvs \<Longrightarrow> lookup_last ((k, v) # kvs) k = Some v"
proof -
  assume "k \<notin> fst ` set kvs"
  then have "map_of (rev kvs) k = None"
    by (simp add: map_of_eq_None_iff)
  then show ?thesis
    by (simp add: lookup_last_def map_add_def)
qed

lemma length_filter_list_update:
  "i < length xs \<Longrightarrow>
   length (filter P (xs[i := y])) + (if P (xs ! i) then 1 else 0) =
   length (filter P xs) + (if P y then 1 else 0)"
proof (induction xs arbitrary: i)
  case Nil
  then show ?case by simp
next
  case (Cons x xs)
  then show ?case by (cases i) auto
qed

lemma map_list_update_same:
  "i < length xs \<Longrightarrow> f y = f (xs ! i) \<Longrightarrow> map f (xs[i := y]) = map f xs"
  by (simp add: map_update) (metis list_update_id nth_map)

lemma word_of_nat_neg_sint: "sint i < 0 \<Longrightarrow> (word_of_nat (nat (- sint i)) :: 'a::len word) = - i"
proof -
  assume "sint i < 0"
  then have "(word_of_nat (nat (- sint i)) :: 'a word) = word_of_int (- sint i)"
    by simp
  also have "\<dots> = - i" by simp
  finally show ?thesis .
qed

lemma unat_ucast_u32 [simp]: "unat (ucast (w::u32) :: u64) = unat w"
proof -
  have "unat w < 2 ^ LENGTH(32)" by (rule unsigned_less)
  then have "unat w < 2 ^ 64" by simp
  then show ?thesis unfolding unsigned_ucast_eq by (simp add: take_bit_nat_eq_self)
qed
lemma ucast_ucast_u32 [simp]: "ucast (ucast (w::u32) :: u64) = w"
  by (rule ucast_up_ucast_id) (simp add: is_up)

end
