(* ===== verification/Json.thy ===== *)
theory Json
  imports Prelude
begin

text \<open>
  The JSON values and the encoder of \<open>serialize::json\<close> as the Rust 0.12 library
  the source links against provides them. The library is not part of the repository,
  so this theory is modelled from the spec's codec contract and the library's
  documented behaviour. \<open>json\<close> has the constructors of Rust's \<open>Json\<close> enum; an
  object is kept as the list of its members in the order they were read or written
  (the library's \<open>TreeMap\<close> is observed only through lookups, and a later binding of
  a key wins, see \<open>lookup_last\<close>); a float keeps its literal text, since no
  configuration field is a float and the decoder rejects every float where an integer
  is expected. \<open>encode_json\<close> prints a value as the streaming \<open>Encoder\<close> emits it:
  compact, members in order, strings escaped by \<open>escape_str\<close>, integers in decimal.
  \<open>canonical\<close> singles out the values the parser reads back unchanged.
\<close>

datatype json =
    I64 u64
  | U64 u64
  | F64 string
  | String string
  | Boolean bool
  | List "json list"
  | Object "(string \<times> json) list"
  | Null

text \<open>\<open>ErrorCode\<close> of the parser.\<close>

datatype error_code =
    InvalidSyntax
  | InvalidNumber
  | EOFWhileParsingObject
  | EOFWhileParsingList
  | EOFWhileParsingValue
  | EOFWhileParsingString
  | KeyMustBeAString
  | ExpectedColon
  | TrailingCharacters
  | TrailingComma
  | InvalidEscape
  | LoneLeadingSurrogateInHexEscape
  | UnexpectedEndOfHexEscape

text \<open>\<open>DecoderError\<close>: a syntax error of the text, a value of the wrong shape (the
  name of the expected shape), or a missing struct field (its name). The message text
  of the library's errors is not modelled.\<close>

datatype decoder_error =
    ParseError error_code
  | ExpectedError string
  | MissingFieldError string

section \<open>The encoder\<close>

text \<open>\<open>escape_str\<close>: a double quote, the quote and backslash escaped, and the five
  control characters with a short escape written as that escape; every other byte is
  written as it is.\<close>

definition escape_char :: "char \<Rightarrow> string" where
  "escape_char c =
     (if c = CHR 0x22 then [CHR 0x5C, CHR 0x22]
      else if c = CHR 0x5C then [CHR 0x5C, CHR 0x5C]
      else if c = CHR 0x08 then [CHR 0x5C, CHR ''b'']
      else if c = CHR 0x0C then [CHR 0x5C, CHR ''f'']
      else if c = CHR 0x0A then [CHR 0x5C, CHR ''n'']
      else if c = CHR 0x0D then [CHR 0x5C, CHR ''r'']
      else if c = CHR 0x09 then [CHR 0x5C, CHR ''t'']
      else [c])"

definition escape_str :: "string \<Rightarrow> string" where
  "escape_str s = CHR 0x22 # concat (map escape_char s) @ [CHR 0x22]"

text \<open>\<open>Display\<close> of an \<open>i64\<close> and a \<open>u64\<close>.\<close>

definition encode_i64 :: "u64 \<Rightarrow> string" where
  "encode_i64 i =
     (if sint i < 0 then CHR ''-'' # decimal (nat (- sint i)) else decimal (nat (sint i)))"

definition encode_u64 :: "u64 \<Rightarrow> string" where
  "encode_u64 n = decimal (unat n)"

text \<open>Elements and members are separated by a comma (the \<open>idx != 0\<close> test of
  \<open>emit_seq_elt\<close> and \<open>emit_struct_field\<close>).\<close>

fun comma_sep :: "string list \<Rightarrow> string" where
  "comma_sep [] = []"
| "comma_sep [x] = x"
| "comma_sep (x # y # ys) = x @ CHR '','' # comma_sep (y # ys)"

text \<open>The printer, with the text of an unsigned integer as a parameter \<open>pu\<close>;
  everything else is printed as the library prints it. The library's encoder is
  \<open>encode_json\<close>, which prints an unsigned integer in decimal (\<open>encode_u64\<close>); other
  choices of \<open>pu\<close> describe texts written by hand, such as integers out of range.\<close>

fun print_json :: "(u64 \<Rightarrow> string) \<Rightarrow> json \<Rightarrow> string" where
  "print_json pu (I64 i) = encode_i64 i"
| "print_json pu (U64 n) = pu n"
| "print_json pu (F64 lit) = lit"
| "print_json pu (String s) = escape_str s"
| "print_json pu (Boolean b) = (if b then ''true'' else ''false'')"
| "print_json pu (List xs) = ''['' @ comma_sep (map (print_json pu) xs) @ '']''"
| "print_json pu (Object kvs) =
     ''{'' @ comma_sep (map (\<lambda>(k, v). escape_str k @ '':'' @ print_json pu v) kvs) @ ''}''"
| "print_json pu Null = ''null''"

definition encode_json :: "json \<Rightarrow> string" where
  "encode_json = print_json encode_u64"

text \<open>The values the parser reads back as they are: a negative number is the only
  \<open>I64\<close> (a non-negative one is read as \<open>U64\<close>), and no float.\<close>

fun canonical :: "json \<Rightarrow> bool" where
  "canonical (I64 i) = (sint i < 0)"
| "canonical (U64 n) = True"
| "canonical (F64 lit) = False"
| "canonical (String s) = True"
| "canonical (Boolean b) = True"
| "canonical (List xs) = list_all canonical xs"
| "canonical (Object kvs) = list_all (\<lambda>kv. canonical (snd kv)) kvs"
| "canonical Null = True"

section \<open>Lemmas\<close>

lemma encode_json_simps [simp]:
  "encode_json (I64 i) = encode_i64 i"
  "encode_json (U64 n) = encode_u64 n"
  "encode_json (F64 lit) = lit"
  "encode_json (String s) = escape_str s"
  "encode_json (Boolean b) = (if b then ''true'' else ''false'')"
  "encode_json (List xs) = ''['' @ comma_sep (map encode_json xs) @ '']''"
  "encode_json (Object kvs) =
     ''{'' @ comma_sep (map (\<lambda>(k, v). escape_str k @ '':'' @ encode_json v) kvs) @ ''}''"
  "encode_json Null = ''null''"
  by (simp_all add: encode_json_def)

lemma comma_sep_Cons: "comma_sep (x # xs) = x @ concat (map (\<lambda>y. CHR '','' # y) xs)"
  by (induction xs arbitrary: x) simp_all

end
