(* ===== verification/Json_Parser.thy ===== *)
theory Json_Parser
  imports Json
begin

text \<open>
  The parser \<open>json::from_str\<close> of the Rust 0.12 \<open>serialize::json\<close> library, modelled
  (like theory \<open>Json\<close>) from its documented behaviour, since it is not part of the
  repository. It reads bytes: on the valid UTF-8 that \<open>read_to_string\<close> hands it,
  stepping over bytes instead of characters changes nothing, because every byte of a
  multi-byte character is copied as it is inside a string and is a syntax error
  outside one. Each sub-parser takes the remaining input and returns an error code or
  the value read and the input left over. Numbers are read as the library reads them:
  the integer part is accumulated in a \<open>u64\<close> with wrap-around, and its overflow test
  compares with a \<open>last_accum\<close> that is never updated, so it only catches an
  accumulator that wrapped to exactly zero (\<open>parse_digits\<close>). The recursive descent
  over arrays and objects is one function \<open>parse\<close> over the parser's position
  (\<open>parse_state\<close>) with a fuel argument;
  \<open>json_from_str\<close> gives it one unit more than the length of the input, which is
  enough (\<open>parse_enough_fuel\<close>), so running out of fuel is never the result. After
  the value only blanks may follow: an object is closed by its brace whatever comes
  after it (\<open>parse_print_json\<close>), and more than blanks after it is refused
  (\<open>json_from_str_object_trailing\<close>), while blanks before a value are skipped
  (\<open>json_from_str_blank_prefix\<close>).
\<close>

section \<open>Lexical parts\<close>

definition is_ws :: "char \<Rightarrow> bool" where
  "is_ws c \<longleftrightarrow> c = CHR '' '' \<or> c = CHR 0x0A \<or> c = CHR 0x09 \<or> c = CHR 0x0D"

fun skip_ws :: "string \<Rightarrow> string" where
  "skip_ws [] = []"
| "skip_ws (c # cs) = (if is_ws c then skip_ws cs else c # cs)"

text \<open>\<open>parse_ident\<close>: the rest of \<open>null\<close>, \<open>true\<close> or \<open>false\<close> after its first letter.\<close>

definition parse_ident :: "string \<Rightarrow> json \<Rightarrow> string \<Rightarrow> error_code + (json \<times> string)" where
  "parse_ident ident v s =
     (if take (length ident) s = ident then Inr (v, drop (length ident) s) else Inl InvalidSyntax)"

text \<open>The digit loop of \<open>parse_u64\<close>: \<open>accum\<close> is multiplied by ten and the digit
  added, both wrapping; the overflow test is \<open>accum <= last_accum\<close> with
  \<open>last_accum = 0\<close> fixed.\<close>

fun parse_digits :: "u64 \<Rightarrow> string \<Rightarrow> error_code + (u64 \<times> string)" where
  "parse_digits acc [] = Inr (acc, [])"
| "parse_digits acc (c # cs) =
     (if is_digit c then
        (let acc' = acc * 10 + word_of_nat (digit_val c) in
         if acc' \<le> 0 then Inl InvalidNumber else parse_digits acc' cs)
      else Inr (acc, c # cs))"

text \<open>\<open>parse_u64\<close>: a lone \<open>0\<close>, or a non-zero digit and the digit loop.\<close>

definition parse_u64 :: "string \<Rightarrow> error_code + (u64 \<times> string)" where
  "parse_u64 s =
     (case s of
        [] \<Rightarrow> Inl InvalidNumber
      | c # cs \<Rightarrow>
          if c = CHR ''0'' then
            (case cs of
               [] \<Rightarrow> Inr (0, cs)
             | d # _ \<Rightarrow> if is_digit d then Inl InvalidNumber else Inr (0, cs))
          else if is_digit c then parse_digits 0 s
          else Inl InvalidNumber)"

text \<open>\<open>parse_decimal\<close> (at the \<open>.\<close>) and \<open>parse_exponent\<close> (at the \<open>e\<close> or \<open>E\<close>):
  at least one digit must follow; the value of the float is not modelled.\<close>

definition parse_decimal :: "string \<Rightarrow> error_code + string" where
  "parse_decimal s =
     (case s of
        _ # d # cs \<Rightarrow> if is_digit d then Inr (dropWhile is_digit cs) else Inl InvalidNumber
      | _ \<Rightarrow> Inl InvalidNumber)"

definition parse_exponent :: "string \<Rightarrow> error_code + string" where
  "parse_exponent s =
     (let s1 = drop 1 s;
          s2 = (case s1 of c # cs \<Rightarrow> if c = CHR ''+'' \<or> c = CHR ''-'' then cs else s1 | [] \<Rightarrow> [])
      in case s2 of
           d # cs \<Rightarrow> if is_digit d then Inr (dropWhile is_digit cs) else Inl InvalidNumber
         | [] \<Rightarrow> Inl InvalidNumber)"

definition starts_with :: "char \<Rightarrow> string \<Rightarrow> bool" where
  "starts_with c s \<longleftrightarrow> s \<noteq> [] \<and> hd s = c"

text \<open>\<open>parse_number\<close>: an optional minus, the integer part, then a float if a
  fraction or an exponent follows; otherwise \<open>U64\<close>, or for a negative number
  \<open>I64\<close> of the wrapped negation, rejected when that came out positive.\<close>

definition parse_number :: "string \<Rightarrow> error_code + (json \<times> string)" where
  "parse_number s =
     (let neg = starts_with CHR ''-'' s;
          s1 = (if neg then drop 1 s else s)
      in case parse_u64 s1 of
           Inl e \<Rightarrow> Inl e
         | Inr (n, s2) \<Rightarrow>
             if starts_with CHR ''.'' s2 \<or> starts_with CHR ''e'' s2 \<or> starts_with CHR ''E'' s2 then
               (case (if starts_with CHR ''.'' s2 then parse_decimal s2 else Inr s2) of
                  Inl e \<Rightarrow> Inl e
                | Inr s3 \<Rightarrow>
                    (case (if starts_with CHR ''e'' s3 \<or> starts_with CHR ''E'' s3
                           then parse_exponent s3 else Inr s3) of
                       Inl e \<Rightarrow> Inl e
                     | Inr s4 \<Rightarrow> Inr (F64 (take (length s - length s4) s), s4)))
             else if neg then
               (let r = - n in if 0 < sint r then Inl InvalidNumber else Inr (I64 r, s2))
             else Inr (U64 n, s2))"

section \<open>Strings\<close>

definition short_escape :: "char \<Rightarrow> char option" where
  "short_escape e =
     (if e = CHR 0x22 then Some (CHR 0x22)
      else if e = CHR 0x5C then Some (CHR 0x5C)
      else if e = CHR ''/'' then Some (CHR ''/'')
      else if e = CHR ''b'' then Some (CHR 0x08)
      else if e = CHR ''f'' then Some (CHR 0x0C)
      else if e = CHR ''n'' then Some (CHR 0x0A)
      else if e = CHR ''r'' then Some (CHR 0x0D)
      else if e = CHR ''t'' then Some (CHR 0x09)
      else None)"

definition hex_val :: "char \<Rightarrow> nat option" where
  "hex_val c =
     (if is_digit c then Some (digit_val c)
      else if 97 \<le> (of_char c :: nat) \<and> (of_char c :: nat) \<le> 102 then Some (of_char c - 87)
      else if 65 \<le> (of_char c :: nat) \<and> (of_char c :: nat) \<le> 70 then Some (of_char c - 55)
      else None)"

fun hex_digits :: "nat \<Rightarrow> string \<Rightarrow> nat option" where
  "hex_digits acc [] = Some acc"
| "hex_digits acc (c # cs) =
     (case hex_val c of None \<Rightarrow> None | Some h \<Rightarrow> hex_digits (16 * acc + h) cs)"

text \<open>\<open>decode_hex_escape\<close>: exactly four hexadecimal digits.\<close>

definition decode_hex_escape :: "string \<Rightarrow> error_code + nat" where
  "decode_hex_escape s =
     (if length s < 4 then Inl InvalidEscape
      else case hex_digits 0 (take 4 s) of None \<Rightarrow> Inl InvalidEscape | Some n \<Rightarrow> Inr n)"

text \<open>The UTF-8 bytes of a code point, as \<open>String::push\<close> stores them.\<close>

definition utf8_encode :: "nat \<Rightarrow> string" where
  "utf8_encode cp =
     (if cp < 0x80 then [char_of cp]
      else if cp < 0x800 then [char_of (0xC0 + cp div 0x40), char_of (0x80 + cp mod 0x40)]
      else if cp < 0x10000 then
        [char_of (0xE0 + cp div 0x1000), char_of (0x80 + (cp div 0x40) mod 0x40),
         char_of (0x80 + cp mod 0x40)]
      else
        [char_of (0xF0 + cp div 0x40000), char_of (0x80 + (cp div 0x1000) mod 0x40),
         char_of (0x80 + (cp div 0x40) mod 0x40), char_of (0x80 + cp mod 0x40)])"

text \<open>The \<open>\u\<close> escape (after the \<open>u\<close>): a code point of the basic plane, or a
  leading surrogate that must be followed by \<open>\u\<close> and a trailing surrogate. The
  result is the bytes to append and the number of input bytes consumed.\<close>

definition unicode_escape :: "string \<Rightarrow> error_code + (string \<times> nat)" where
  "unicode_escape s =
     (case decode_hex_escape s of
        Inl e \<Rightarrow> Inl e
      | Inr n1 \<Rightarrow>
          if 0xDC00 \<le> n1 \<and> n1 \<le> 0xDFFF then Inl LoneLeadingSurrogateInHexEscape
          else if 0xD800 \<le> n1 \<and> n1 \<le> 0xDBFF then
            (case drop 4 s of
               c1 # c2 # rest \<Rightarrow>
                 if c1 = CHR 0x5C \<and> c2 = CHR ''u'' then
                   (case decode_hex_escape rest of
                      Inl e \<Rightarrow> Inl e
                    | Inr n2 \<Rightarrow>
                        if 0xDC00 \<le> n2 \<and> n2 \<le> 0xDFFF
                        then Inr (utf8_encode (0x10000 + (n1 - 0xD800) * 0x400 + (n2 - 0xDC00)), 10)
                        else Inl LoneLeadingSurrogateInHexEscape)
                 else Inl UnexpectedEndOfHexEscape
             | _ \<Rightarrow> Inl UnexpectedEndOfHexEscape)
          else Inr (utf8_encode n1, 4))"

text \<open>\<open>parse_str\<close> (after the opening quote): the bytes read so far are kept reversed
  in \<open>acc\<close>; raw bytes other than the quote and the backslash are taken as they are.\<close>

function parse_str :: "string \<Rightarrow> string \<Rightarrow> error_code + (string \<times> string)" where
  "parse_str acc [] = Inl EOFWhileParsingString"
| "parse_str acc (c # cs) =
     (if c = CHR 0x22 then Inr (rev acc, cs)
      else if c = CHR 0x5C then
        (case cs of
           [] \<Rightarrow> Inl EOFWhileParsingString
         | e # cs' \<Rightarrow>
             (case short_escape e of
                Some ch \<Rightarrow> parse_str (ch # acc) cs'
              | None \<Rightarrow>
                  if e = CHR ''u'' then
                    (case unicode_escape cs' of
                       Inl err \<Rightarrow> Inl err
                     | Inr (bytes, n) \<Rightarrow> parse_str (rev bytes @ acc) (drop n cs'))
                  else Inl InvalidEscape))
      else parse_str (c # acc) cs)"
  by pat_completeness auto
termination
  by (relation "measure (\<lambda>(acc, s). length s)") auto

section \<open>Values\<close>

text \<open>A value that is not an array or object with members, at its first byte \<open>c\<close>:
  a literal, a number, a string, or an empty array or object.\<close>

definition parse_scalar :: "char \<Rightarrow> string \<Rightarrow> error_code + (json \<times> string)" where
  "parse_scalar c cs =
     (if c = CHR ''n'' then parse_ident ''ull'' Null cs
      else if c = CHR ''t'' then parse_ident ''rue'' (Boolean True) cs
      else if c = CHR ''f'' then parse_ident ''alse'' (Boolean False) cs
      else if c = CHR ''-'' \<or> is_digit c then parse_number (c # cs)
      else if c = CHR 0x22 then
        (case parse_str [] cs of Inl e \<Rightarrow> Inl e | Inr (str, rest) \<Rightarrow> Inr (String str, rest))
      else if c = CHR ''['' then Inr (List [], drop 1 (skip_ws cs))
      else if c = CHR ''{'' then Inr (Object [], drop 1 (skip_ws cs))
      else Inl InvalidSyntax)"

text \<open>A member's key (after its opening quote), the white space after it and the colon;
  the result is the key and the input after the colon and its white space.\<close>

definition parse_key :: "string \<Rightarrow> error_code + (string \<times> string)" where
  "parse_key cs =
     (case parse_str [] cs of
        Inl e \<Rightarrow> Inl e
      | Inr (k, rest) \<Rightarrow>
          (case skip_ws rest of
             [] \<Rightarrow> Inl EOFWhileParsingObject
           | d # rest' \<Rightarrow> if d = CHR '':'' then Inr (k, skip_ws rest') else Inl ExpectedColon))"

text \<open>The library's \<open>try!\<close> on a nested parse: an error is returned at once, a
  value is handed on with the input after it.\<close>

definition pbind :: "(error_code + (json \<times> string)) option \<Rightarrow>
    (json \<Rightarrow> string \<Rightarrow> (error_code + (json \<times> string)) option) \<Rightarrow>
    (error_code + (json \<times> string)) option" where
  "pbind m k = (case m of None \<Rightarrow> None | Some (Inl e) \<Rightarrow> Some (Inl e) | Some (Inr (v, rest)) \<Rightarrow> k v rest)"

text \<open>The parser's position, as the library's \<open>ParserState\<close>: at the first byte of a
  value; after an element of an array and its trailing white space (a comma or the
  closing bracket must follow), with the elements read so far; at the key of an object
  member; after a member and its trailing white space, with the members read so far.
  \<open>parse\<close> runs the recursive descent; \<open>None\<close> is running out of fuel.\<close>

datatype parse_state =
    ParseValue
  | ParseListRest "json list"
  | ParseMember "(string \<times> json) list"
  | ParseObjectRest "(string \<times> json) list"

primrec parse :: "nat \<Rightarrow> parse_state \<Rightarrow> string \<Rightarrow> (error_code + (json \<times> string)) option" where
  "parse 0 st s = None"
| "parse (Suc f) st s =
     (case st of
        ParseValue \<Rightarrow>
          (case s of
             [] \<Rightarrow> Some (Inl EOFWhileParsingValue)
           | c # cs \<Rightarrow>
               if c = CHR ''['' \<and> \<not> starts_with CHR '']'' (skip_ws cs) then
                 pbind (parse f ParseValue (skip_ws cs))
                   (\<lambda>v rest. parse f (ParseListRest [v]) (skip_ws rest))
               else if c = CHR ''{'' \<and> \<not> starts_with CHR ''}'' (skip_ws cs) then
                 parse f (ParseMember []) (skip_ws cs)
               else Some (parse_scalar c cs))
      | ParseListRest acc \<Rightarrow>
          (case s of
             [] \<Rightarrow> Some (Inl EOFWhileParsingList)
           | c # cs \<Rightarrow>
               if c = CHR '','' then
                 pbind (parse f ParseValue (skip_ws cs))
                   (\<lambda>v rest. parse f (ParseListRest (acc @ [v])) (skip_ws rest))
               else if c = CHR '']'' then Some (Inr (List acc, cs))
               else Some (Inl InvalidSyntax))
      | ParseMember acc \<Rightarrow>
          (case s of
             [] \<Rightarrow> Some (Inl EOFWhileParsingObject)
           | c # cs \<Rightarrow>
               if c = CHR 0x22 then
                 (case parse_key cs of
                    Inl e \<Rightarrow> Some (Inl e)
                  | Inr (k, rest) \<Rightarrow>
                      pbind (parse f ParseValue (skip_ws rest))
                        (\<lambda>v rest'. parse f (ParseObjectRest (acc @ [(k, v)])) (skip_ws rest')))
               else Some (Inl KeyMustBeAString))
      | ParseObjectRest acc \<Rightarrow>
          (case s of
             [] \<Rightarrow> Some (Inl EOFWhileParsingObject)
           | c # cs \<Rightarrow>
               if c = CHR '','' then
                 (if starts_with CHR ''}'' (skip_ws cs) then Some (Inl TrailingComma)
                  else parse f (ParseMember acc) (skip_ws cs))
               else if c = CHR ''}'' then Some (Inr (Object acc, cs))
               else Some (Inl InvalidSyntax)))"

text \<open>\<open>json::from_str\<close>: white space, one value, white space, and the end.\<close>

definition json_from_str :: "string \<Rightarrow> error_code + json" where
  "json_from_str s =
     (case parse (Suc (length s)) ParseValue (skip_ws s) of
        None \<Rightarrow> Inl EOFWhileParsingValue
      | Some (Inl e) \<Rightarrow> Inl e
      | Some (Inr (v, rest)) \<Rightarrow> if skip_ws rest = [] then Inr v else Inl TrailingCharacters)"

text \<open>What the encoder writes after a value: the end of the text, or the comma or
  closing bracket or brace of the enclosing array or object.\<close>

definition value_end :: "string \<Rightarrow> bool" where
  "value_end rest \<longleftrightarrow> rest = [] \<or> hd rest = CHR '','' \<or> hd rest = CHR '']'' \<or> hd rest = CHR ''}''"


text \<open>A printer of unsigned integers the parser reads back: its text starts with a
  digit, and the number parser reads the integer back from it, whatever may follow a
  value after it.\<close>

definition u64_printer_ok :: "(u64 \<Rightarrow> string) \<Rightarrow> bool" where
  "u64_printer_ok pu \<longleftrightarrow>
     (\<forall>n. pu n \<noteq> [] \<and> is_digit (hd (pu n)) \<and>
          (\<forall>rest. value_end rest \<longrightarrow> parse_number (pu n @ rest) = Inr (U64 n, rest)))"

text \<open>The bytes a JSON value can start with.\<close>

definition value_start :: "char \<Rightarrow> bool" where
  "value_start c \<longleftrightarrow>
     c = CHR ''-'' \<or> is_digit c \<or> c = CHR 0x22 \<or> c = CHR ''['' \<or> c = CHR ''{'' \<or>
     c = CHR ''n'' \<or> c = CHR ''t'' \<or> c = CHR ''f''"

section \<open>Every parse consumes input\<close>

lemma pbind_simps [simp]:
  "pbind None k = None"
  "pbind (Some (Inl e)) k = Some (Inl e)"
  "pbind (Some (Inr (v, rest))) k = k v rest"
  by (simp_all add: pbind_def)

lemma pbind_Inr:
  "pbind m k = Some (Inr x) \<longleftrightarrow> (\<exists>v rest. m = Some (Inr (v, rest)) \<and> k v rest = Some (Inr x))"
  by (auto simp: pbind_def split: option.splits sum.splits)

lemma length_skip_ws [simp]: "length (skip_ws s) \<le> length s"
  by (induction s) auto

lemma length_skip_ws_diff [simp]: "length (skip_ws s) - n \<le> length s"
  using length_skip_ws [of s] by linarith

lemma length_dropWhile_le_trans [simp]: "length xs \<le> n \<Longrightarrow> length (dropWhile P xs) \<le> n"
  using length_dropWhile_le order_trans by blast

lemma parse_ident_length: "parse_ident ident v s = Inr (v', r) \<Longrightarrow> length r \<le> length s"
  by (auto simp: parse_ident_def split: if_splits)

lemma parse_digits_length: "parse_digits acc s = Inr (n, r) \<Longrightarrow> length r \<le> length s"
  by (induction acc s rule: parse_digits.induct) (auto simp: Let_def split: if_splits)

lemma parse_u64_length: "parse_u64 s = Inr (n, r) \<Longrightarrow> length r < length s"
  by (fastforce simp: parse_u64_def Let_def split: list.splits if_splits
      dest: parse_digits_length)

lemma parse_decimal_length: "parse_decimal s = Inr r \<Longrightarrow> length r \<le> length s"
  by (auto simp: parse_decimal_def split: list.splits if_splits)

lemma parse_exponent_length: "parse_exponent s = Inr r \<Longrightarrow> length r \<le> length s"
  by (cases s) (auto simp: parse_exponent_def Let_def split: list.splits if_splits)

lemma parse_number_length: "parse_number s = Inr (v, r) \<Longrightarrow> length r < length s"
  by (fastforce simp: parse_number_def Let_def starts_with_def
      split: sum.splits prod.splits if_splits
      dest: parse_u64_length parse_decimal_length parse_exponent_length)

lemma parse_str_length: "parse_str acc s = Inr (str, r) \<Longrightarrow> length r < length s"
proof (induction "length s" arbitrary: acc s rule: less_induct)
  case less
  show ?case
  proof (cases s)
    case Nil
    with less.prems show ?thesis by simp
  next
    case (Cons c cs)
    have IH: "length r < length s'"
      if "length s' < length s" and "parse_str acc' s' = Inr (str, r)" for acc' s'
      using less.hyps that by blast
    consider (q) "c = CHR 0x22" | (raw) "c \<noteq> CHR 0x22" "c \<noteq> CHR 0x5C"
      | (esc) "c = CHR 0x5C" by blast
    then show ?thesis
    proof cases
      case q
      with less.prems Cons show ?thesis by simp
    next
      case raw
      with less.prems Cons have "parse_str (c # acc) cs = Inr (str, r)" by simp
      with Cons IH [of cs "c # acc"] show ?thesis by simp
    next
      case esc
      with less.prems Cons obtain e cs' where cs: "cs = e # cs'"
        by (cases cs) auto
      show ?thesis
      proof (cases "short_escape e")
        case (Some ch)
        with less.prems Cons esc cs have "parse_str (ch # acc) cs' = Inr (str, r)" by simp
        with Cons cs IH [of cs' "ch # acc"] show ?thesis by simp
      next
        case None
        with less.prems Cons esc cs obtain bytes n where
          "parse_str (rev bytes @ acc) (drop n cs') = Inr (str, r)"
          by (auto split: if_splits sum.splits)
        with Cons cs IH [of "drop n cs'" "rev bytes @ acc"] show ?thesis by fastforce
      qed
    qed
  qed
qed

lemma parse_scalar_length: "parse_scalar c cs = Inr (v, r) \<Longrightarrow> length r \<le> length cs"
  unfolding parse_scalar_def
  by (auto split: if_splits sum.splits prod.splits
      dest!: parse_ident_length parse_number_length parse_str_length)

lemma parse_key_length: "parse_key cs = Inr (k, r) \<Longrightarrow> length r < length cs"
proof -
  assume "parse_key cs = Inr (k, r)"
  then obtain rest d rest' where ps: "parse_str [] cs = Inr (k, rest)"
    and sk: "skip_ws rest = d # rest'" and r: "r = skip_ws rest'"
    by (auto simp: parse_key_def split: sum.splits list.splits if_splits)
  from sk have "length rest' < length rest"
    using length_skip_ws [of rest] by simp
  with parse_str_length [OF ps] have "length (skip_ws rest') < length cs"
    using length_skip_ws [of rest'] by linarith
  with r show ?thesis by simp
qed

lemma parse_length: "parse f st s = Some (Inr (v, r)) \<Longrightarrow> length r < length s"
proof (induction f arbitrary: st s v r)
  case 0
  then show ?case by simp
next
  case (Suc f)
  show ?case
  proof (cases s)
    case Nil
    with Suc.prems show ?thesis by (cases st) auto
  next
    case (Cons c cs)
    have ws: "length (skip_ws cs) < length s" using Cons by (simp add: le_imp_less_Suc)
    have bind: "length r < length s"
      if "pbind (parse f ParseValue s1) (\<lambda>v rest. parse f (st' v) (skip_ws rest)) = Some (Inr (v, r))"
        and "length s1 < length s" for s1 st'
    proof -
      from that(1) obtain v1 rest1 where p1: "parse f ParseValue s1 = Some (Inr (v1, rest1))"
        and p2: "parse f (st' v1) (skip_ws rest1) = Some (Inr (v, r))"
        by (auto simp: pbind_Inr)
      from Suc.IH [OF p1] Suc.IH [OF p2] that(2) show ?thesis
        using length_skip_ws [of rest1] by linarith
    qed
    show ?thesis
    proof (cases st)
      case ParseValue
      show ?thesis
      proof (cases "c = CHR ''['' \<and> \<not> starts_with CHR '']'' (skip_ws cs)")
        case True
        with Suc.prems Cons ParseValue
        have "pbind (parse f ParseValue (skip_ws cs))
                (\<lambda>v rest. parse f (ParseListRest [v]) (skip_ws rest)) = Some (Inr (v, r))"
          by simp
        then show ?thesis using ws by (rule bind)
      next
        case nl: False
        show ?thesis
        proof (cases "c = CHR ''{'' \<and> \<not> starts_with CHR ''}'' (skip_ws cs)")
          case True
          with nl Suc.prems Cons ParseValue
          have "parse f (ParseMember []) (skip_ws cs) = Some (Inr (v, r))"
            by simp
          from Suc.IH [OF this] ws show ?thesis by linarith
        next
          case False
          with nl Suc.prems Cons ParseValue have "parse_scalar c cs = Inr (v, r)"
            by (simp split: if_split_asm)
          from parse_scalar_length [OF this] Cons show ?thesis by simp
        qed
      qed
    next
      case (ParseListRest acc)
      show ?thesis
      proof (cases "c = CHR '',''")
        case True
        with Suc.prems Cons ParseListRest
        have "pbind (parse f ParseValue (skip_ws cs))
                (\<lambda>v rest. parse f (ParseListRest (acc @ [v])) (skip_ws rest)) = Some (Inr (v, r))"
          by simp
        then show ?thesis using ws by (rule bind)
      next
        case False
        with Suc.prems Cons ParseListRest show ?thesis by (simp split: if_splits)
      qed
    next
      case (ParseMember acc)
      show ?thesis
      proof (cases "c = CHR 0x22")
        case True
        with Suc.prems Cons ParseMember obtain k rest where
          pk: "parse_key cs = Inr (k, rest)" and
          pb: "pbind (parse f ParseValue (skip_ws rest))
                 (\<lambda>v rest'. parse f (ParseObjectRest (acc @ [(k, v)])) (skip_ws rest')) =
               Some (Inr (v, r))"
          by (auto split: sum.splits)
        from parse_key_length [OF pk] length_skip_ws [of rest]
        have "length (skip_ws rest) < length cs" by linarith
        with Cons have "length (skip_ws rest) < length s" by simp
        with pb show ?thesis by (rule bind)
      next
        case False
        with Suc.prems Cons ParseMember show ?thesis by simp
      qed
    next
      case (ParseObjectRest acc)
      show ?thesis
      proof (cases "c = CHR '','' \<and> \<not> starts_with CHR ''}'' (skip_ws cs)")
        case True
        with Suc.prems Cons ParseObjectRest
        have "parse f (ParseMember acc) (skip_ws cs) = Some (Inr (v, r))"
          by simp
        from Suc.IH [OF this] ws show ?thesis by linarith
      next
        case False
        with Suc.prems Cons ParseObjectRest show ?thesis by (simp split: if_splits)
      qed
    qed
  qed
qed


section \<open>The parser always answers\<close>

text \<open>Every step of the descent consumes input (\<open>parse_length\<close>), so fuel
  larger than the input never runs out.\<close>

lemma parse_enough_fuel: "length s < f \<Longrightarrow> parse f st s \<noteq> None"
proof (induction f arbitrary: st s)
  case 0
  then show ?case by simp
next
  case (Suc f)
  show ?case
  proof (cases s)
    case Nil
    then show ?thesis by (cases st) simp_all
  next
    case (Cons c cs)
    have "length cs < f" using Cons Suc.prems by simp
    with length_skip_ws [of cs] have ws: "length (skip_ws cs) < f" by linarith
    have bind: "pbind (parse f ParseValue s1) (\<lambda>v rest. parse f (st' v) (skip_ws rest)) \<noteq> None"
      if "length s1 < f" for s1 st'
    proof (cases "parse f ParseValue s1")
      case None
      with Suc.IH [OF that, of ParseValue] show ?thesis by simp
    next
      case (Some res)
      show ?thesis
      proof (cases res)
        case (Inl e)
        with Some show ?thesis by simp
      next
        case (Inr p)
        obtain v rest where p: "p = (v, rest)" by (cases p)
        with Some Inr have "length rest < length s1" by (simp add: parse_length)
        with that length_skip_ws [of rest] have "length (skip_ws rest) < f" by linarith
        from Suc.IH [OF this] Some Inr p show ?thesis by simp
      qed
    qed
    show ?thesis
    proof (cases st)
      case ParseValue
      with Cons bind [OF ws, of "\<lambda>v. ParseListRest [v]"] Suc.IH [OF ws, of "ParseMember []"]
      show ?thesis by simp
    next
      case (ParseListRest acc)
      with Cons bind [OF ws, of "\<lambda>v. ParseListRest (acc @ [v])"] show ?thesis by simp
    next
      case (ParseMember acc)
      show ?thesis
      proof (cases "parse_key cs")
        case (Inl e)
        with Cons ParseMember show ?thesis by simp
      next
        case (Inr p)
        obtain k rest where p: "p = (k, rest)" by (cases p)
        with Inr have "length rest < length cs" by (simp add: parse_key_length)
        with \<open>length cs < f\<close> length_skip_ws [of rest] have "length (skip_ws rest) < f"
          by linarith
        from bind [OF this, of "\<lambda>v. ParseObjectRest (acc @ [(k, v)])"] Cons ParseMember Inr p
        show ?thesis by simp
      qed
    next
      case (ParseObjectRest acc)
      with Cons Suc.IH [OF ws, of "ParseMember acc"] show ?thesis by simp
    qed
  qed
qed


lemma json_from_str_fuel: "parse (Suc (length s)) ParseValue (skip_ws s) \<noteq> None"
proof (rule parse_enough_fuel)
  show "length (skip_ws s) < Suc (length s)" using length_skip_ws [of s] by linarith
qed

text \<open>More fuel never changes an answer: a recursive call that answered with less
  fuel answers the same with more.\<close>

lemma pbind_fuel_mono:
  assumes "pbind m k = Some r" and "\<And>x. m = Some x \<Longrightarrow> m' = Some x"
    and "\<And>v rest. k v rest = Some r \<Longrightarrow> k' v rest = Some r"
  shows "pbind m' k' = Some r"
  using assms by (auto simp: pbind_def split: option.splits sum.splits)

lemma parse_fuel_mono: "parse f st s = Some r \<Longrightarrow> parse (Suc f) st s = Some r"
proof (induction f arbitrary: st s r)
  case 0
  then show ?case by simp
next
  case (Suc f)
  have IH: "\<And>st s r. parse f st s = Some r \<Longrightarrow> parse (Suc f) st s = Some r" by (rule Suc.IH)
  note P = Suc.prems [unfolded parse.simps(2)]
  show ?case
    apply (subst parse.simps(2))
    using P by (auto simp del: parse.simps split: parse_state.splits list.splits if_splits sum.splits
        elim!: pbind_fuel_mono intro: IH)
qed

lemma parse_fuel_le: "parse f st s = Some r \<Longrightarrow> f \<le> g \<Longrightarrow> parse g st s = Some r"
proof (induction g)
  case 0
  then show ?case by simp
next
  case (Suc g)
  show ?case
  proof (cases "f = Suc g")
    case True
    with Suc.prems show ?thesis by simp
  next
    case False
    with Suc.prems have "parse g st s = Some r" by (intro Suc.IH) simp_all
    then show ?thesis by (rule parse_fuel_mono)
  qed
qed

section \<open>Reading back what the encoder wrote\<close>

text \<open>Numbers: the digit loop reads a decimal numeral without a leading zero exactly
  when its value fits (no wrap can reach zero before the last digit); an \<open>i64\<close>
  is read back through the wrapped negation.\<close>

lemma starts_with_Cons [simp]: "starts_with c (d # s) \<longleftrightarrow> d = c"
  by (simp add: starts_with_def)


lemma is_digit_not_special:
  "is_digit c \<Longrightarrow> c \<noteq> CHR ''-'' \<and> c \<noteq> CHR ''n'' \<and> c \<noteq> CHR ''t'' \<and> c \<noteq> CHR ''f'' \<and>
     c \<noteq> CHR 0x22 \<and> c \<noteq> CHR ''['' \<and> c \<noteq> CHR ''{'' \<and> c \<noteq> CHR '']'' \<and> c \<noteq> CHR ''}'' \<and>
     \<not> is_ws c"
  by (auto simp: is_digit_def is_ws_def)


lemma value_end_not_digit: "value_end rest \<Longrightarrow> rest = [] \<or> \<not> is_digit (hd rest)"
  by (auto simp: value_end_def is_digit_def)


lemma value_end_no_fraction:
  "value_end rest \<Longrightarrow>
   \<not> starts_with CHR ''.'' rest \<and> \<not> starts_with CHR ''e'' rest \<and> \<not> starts_with CHR ''E'' rest"
  by (auto simp: value_end_def starts_with_def)


lemma parse_digits_prefix:
  assumes "list_all is_digit ds" and "digits_value a ds < 2 ^ 64"
    and "0 < a \<or> (ds \<noteq> [] \<and> hd ds \<noteq> CHR ''0'')"
  shows "parse_digits (word_of_nat a) (ds @ s) = parse_digits (word_of_nat (digits_value a ds)) s"
  using assms
proof (induction ds arbitrary: a)
  case Nil
  then show ?case by simp
next
  case (Cons d ds)
  define x where "x = 10 * a + digit_val d"
  have dv: "digits_value a (d # ds) = digits_value x ds" by (simp add: x_def)
  have pos: "0 < x"
    using Cons.prems(1,3) digit_val_pos [of d] by (auto simp: x_def)
  have lt: "x < 2 ^ 64"
    using Cons.prems(2) digits_value_ge [of x ds] dv by linarith
  have acc: "word_of_nat a * 10 + word_of_nat (digit_val d) = (word_of_nat x :: u64)"
    by (simp add: x_def)
  have nz: "(word_of_nat x :: u64) \<noteq> 0"
    using pos lt by (simp add: word_of_nat_eq_0_iff nat_dvd_not_less)
  from Cons.IH [of x] Cons.prems pos dv
  have "parse_digits (word_of_nat x) (ds @ s) = parse_digits (word_of_nat (digits_value a (d # ds))) s"
    by simp
  with Cons.prems(1) acc nz show ?case by (simp add: Let_def)
qed

lemma parse_digits_stop: "rest = [] \<or> \<not> is_digit (hd rest) \<Longrightarrow> parse_digits acc rest = Inr (acc, rest)"
  by (cases rest) auto

text \<open>The digit loop on the numeral of \<open>m\<close>: all but the last digit accumulate
  without wrapping when \<open>m div 10\<close> fits, and the last step wraps to \<open>m mod 2^64\<close>,
  which the overflow test refuses only when it is zero.\<close>

lemma parse_digits_decimal:
  assumes "0 < m" and "m div 10 < 2 ^ 64" and "\<not> 2 ^ 64 dvd m"
    and "rest = [] \<or> \<not> is_digit (hd rest)"
  shows "parse_digits 0 (decimal m @ rest) = Inr (word_of_nat m, rest)"
proof -
  define q where "q = m div 10"
  define r where "r = m mod 10"
  have m: "m = 10 * q + r" by (simp add: q_def r_def)
  have r10: "r < 10" by (simp add: r_def)
  have pre: "parse_digits 0 (decimal m @ rest) = parse_digits (word_of_nat q) (digit_char r # rest)"
  proof (cases "q = 0")
    case True
    then have "m < 10" by (simp add: q_def)
    then have "decimal m = [digit_char r]"
      by (subst decimal.simps) (simp add: r_def)
    with True show ?thesis by simp
  next
    case False
    then have "\<not> m < 10" by (simp add: q_def)
    then have dm: "decimal m = decimal q @ [digit_char r]"
      by (subst decimal.simps) (simp add: q_def r_def)
    have "parse_digits (word_of_nat 0) (decimal q @ (digit_char r # rest)) =
          parse_digits (word_of_nat (digits_value 0 (decimal q))) (digit_char r # rest)"
      by (rule parse_digits_prefix)
        (use assms(2) False decimal_hd_nonzero [of q] decimal_all_digits [of q] digits_value_decimal [of q]
         in \<open>auto simp: list_all_iff q_def\<close>)
    with dm show ?thesis by (simp add: digits_value_decimal)
  qed
  have acc: "word_of_nat q * 10 + word_of_nat (digit_val (digit_char r)) = (word_of_nat m :: u64)"
    using m r10 by simp
  have nz: "(word_of_nat m :: u64) \<noteq> 0"
    using assms(3) by (simp add: word_of_nat_eq_0_iff)
  from pre acc nz r10 parse_digits_stop [OF assms(4), of "word_of_nat m"] show ?thesis
    by (simp add: Let_def)
qed

lemma parse_u64_decimal_wrap:
  assumes "m div 10 < 2 ^ 64" and "m = 0 \<or> \<not> 2 ^ 64 dvd m"
    and "rest = [] \<or> \<not> is_digit (hd rest)"
  shows "parse_u64 (decimal m @ rest) = Inr (word_of_nat m, rest)"
proof (cases "m = 0")
  case True
  have "decimal 0 = [CHR ''0'']"
    using digit_char_zero_iff [of 0] by (simp add: decimal.simps)
  with True assms(3) show ?thesis by (cases rest) (auto simp: parse_u64_def)
next
  case False
  obtain c cs where dc: "decimal m = c # cs" and c: "is_digit c" "c \<noteq> CHR ''0''"
    using False by (cases m rule: decimal_Cons) auto
  from False assms have "parse_digits 0 (decimal m @ rest) = Inr (word_of_nat m, rest)"
    by (intro parse_digits_decimal) simp_all
  with c dc show ?thesis by (simp add: parse_u64_def del: parse_digits.simps)
qed

lemma parse_u64_decimal:
  assumes "m < 2 ^ 64" and "rest = [] \<or> \<not> is_digit (hd rest)"
  shows "parse_u64 (decimal m @ rest) = Inr (word_of_nat m, rest)"
  using assms by (intro parse_u64_decimal_wrap) (auto simp: nat_dvd_not_less)

text \<open>A numeral starting with a digit and followed by what may follow a value is an
  unsigned integer, whatever the digit loop made of it.\<close>

lemma parse_number_unsigned:
  assumes "is_digit c" and "parse_u64 (c # cs @ rest) = Inr (n, rest)" and "value_end rest"
  shows "parse_number (c # cs @ rest) = Inr (U64 n, rest)"
  using assms is_digit_not_special [OF assms(1)] value_end_no_fraction [OF assms(3)]
  by (simp add: parse_number_def)

lemma parse_number_encode_u64:
  "value_end rest \<Longrightarrow> parse_number (encode_u64 n @ rest) = Inr (U64 n, rest)"
proof -
  assume e: "value_end rest"
  obtain c cs where dc: "decimal (unat n) = c # cs" and c: "is_digit c"
    by (cases "unat n" rule: decimal_Cons) auto
  have "parse_u64 (decimal (unat n) @ rest) = Inr (n, rest)"
    using parse_u64_decimal [of "unat n" rest] value_end_not_digit [OF e] unsigned_less [of n] by simp
  with dc c e show ?thesis
    by (simp add: encode_u64_def parse_number_unsigned)
qed

lemma parse_number_encode_i64:
  "sint i < 0 \<Longrightarrow> value_end rest \<Longrightarrow> parse_number (encode_i64 i @ rest) = Inr (I64 i, rest)"
proof -
  assume neg: "sint i < 0" and e: "value_end rest"
  define m where "m = nat (- sint i)"
  have "- (2 ^ 63) \<le> sint i" using sint_ge [of i] by simp
  then have "m < 2 ^ 64" using neg by (simp add: m_def nat_less_iff)
  then have "parse_u64 (decimal m @ rest) = Inr (- i, rest)"
    using parse_u64_decimal [of m rest] value_end_not_digit [OF e] word_of_nat_neg_sint [OF neg]
    by (simp add: m_def)
  with neg value_end_no_fraction [OF e] show ?thesis
    by (simp add: parse_number_def encode_i64_def m_def)
qed


text \<open>Strings and keys: every escape the encoder writes is one the parser decodes to
  the byte it came from.\<close>

lemma escape_char_cases:
  "(escape_char c = [c] \<and> c \<noteq> CHR 0x22 \<and> c \<noteq> CHR 0x5C) \<or>
   (\<exists>e. escape_char c = [CHR 0x5C, e] \<and> short_escape e = Some c)"
  by (auto simp: escape_char_def short_escape_def)


lemma parse_str_escaped:
  "parse_str acc (concat (map escape_char s) @ CHR 0x22 # rest) = Inr (rev acc @ s, rest)"
proof (induction s arbitrary: acc)
  case Nil
  show ?case by simp
next
  case (Cons c s)
  from escape_char_cases [of c] show ?case
  proof
    assume "escape_char c = [c] \<and> c \<noteq> CHR 0x22 \<and> c \<noteq> CHR 0x5C"
    with Cons.IH [of "c # acc"] show ?case by simp
  next
    assume "\<exists>e. escape_char c = [CHR 0x5C, e] \<and> short_escape e = Some c"
    then obtain e where "escape_char c = [CHR 0x5C, e]" "short_escape e = Some c" by blast
    with Cons.IH [of "c # acc"] show ?case by simp
  qed
qed


lemma parse_key_escaped:
  "parse_key (concat (map escape_char k) @ CHR 0x22 # CHR '':'' # rest) = Inr (k, skip_ws rest)"
  by (simp add: parse_key_def parse_str_escaped is_ws_def)


text \<open>Values: the printing of a canonical value, by any printer of unsigned integers
  the parser reads back (\<open>u64_printer_ok\<close>, which the encoder's printer is), followed by anything that may follow
  a value, is read back as the value, leaving the rest. Arrays and objects are read
  element by element (\<open>parse_list_tail\<close>, \<open>parse_object_tail\<close>).\<close>

lemma print_json_head:
  "u64_printer_ok pu \<Longrightarrow> canonical j \<Longrightarrow>
   \<exists>c cs. print_json pu j = c # cs \<and> \<not> is_ws c \<and> c \<noteq> CHR '']'' \<and> c \<noteq> CHR ''}''"
proof (cases j)
  case (U64 n)
  assume "u64_printer_ok pu"
  then obtain c cs where "pu n = c # cs" "is_digit c"
    unfolding u64_printer_ok_def by (metis list.collapse)
  with U64 is_digit_not_special [of c] show ?thesis by simp
qed (auto simp: encode_i64_def escape_str_def is_ws_def)


lemma skip_ws_print_json:
  "u64_printer_ok pu \<Longrightarrow> canonical j \<Longrightarrow> skip_ws (print_json pu j @ rest) = print_json pu j @ rest"
  using print_json_head [of pu j] by auto


lemma print_json_not_close:
  "u64_printer_ok pu \<Longrightarrow> canonical j \<Longrightarrow>
   \<not> starts_with CHR '']'' (print_json pu j @ rest) \<and> \<not> starts_with CHR ''}'' (print_json pu j @ rest)"
  using print_json_head [of pu j] by auto



lemma parse_list_tail:
  assumes "\<And>y rest f. y \<in> set ys \<Longrightarrow> value_end rest \<Longrightarrow> length (print_json pu y @ rest) < f \<Longrightarrow>
      parse f ParseValue (print_json pu y @ rest) = Some (Inr (y, rest))"
    and "list_all canonical ys"
    and "length (concat (map (\<lambda>y. CHR '','' # print_json pu y) ys) @ CHR '']'' # rest) < f"
    and "u64_printer_ok pu"
  shows "parse f (ParseListRest acc) (concat (map (\<lambda>y. CHR '','' # print_json pu y) ys) @ CHR '']'' # rest) =
    Some (Inr (List (acc @ ys), rest))"
  using assms
proof (induction ys arbitrary: acc f)
  case Nil
  then obtain f' where "f = Suc f'" by (cases f) auto
  then show ?case by simp
next
  case (Cons y ys)
  from Cons.prems(3) obtain f' where f: "f = Suc f'" by (cases f) auto
  define more where "more = concat (map (\<lambda>y. CHR '','' # print_json pu y) ys) @ CHR '']'' # rest"
  have e: "value_end more" by (cases ys) (simp_all add: value_end_def more_def)
  have py: "parse f' ParseValue (print_json pu y @ more) = Some (Inr (y, more))"
    using Cons.prems(1) [of y more f'] e Cons.prems(3) f by (simp add: more_def)
  have sk: "skip_ws (print_json pu y @ more) = print_json pu y @ more"
    using Cons.prems(2,4) by (simp add: skip_ws_print_json)
  have sk2: "skip_ws more = more" by (cases ys) (simp_all add: is_ws_def more_def)
  have tl: "parse f' (ParseListRest (acc @ [y])) more = Some (Inr (List (acc @ y # ys), rest))"
    using Cons.IH [where acc = "acc @ [y]" and f = f'] Cons.prems f by (simp add: more_def)
  from f py sk sk2 tl show ?case by (simp add: more_def [symmetric])
qed


lemma parse_member:
  assumes "parse f ParseValue (print_json pu v @ more) = Some (Inr (v, more))" and "canonical v"
    and "u64_printer_ok pu"
  shows "parse (Suc f) (ParseMember acc) (escape_str k @ '':'' @ print_json pu v @ more) =
    parse f (ParseObjectRest (acc @ [(k, v)])) (skip_ws more)"
  using assms skip_ws_print_json [OF assms(3,2), of more]
  by (simp add: escape_str_def parse_key_escaped)


lemma parse_object_comma:
  "parse (Suc f) (ParseObjectRest acc) (CHR '','' # CHR 0x22 # s) = parse f (ParseMember acc) (CHR 0x22 # s)"
  by (simp add: is_ws_def)


lemma parse_object_open:
  "parse (Suc f) ParseValue (CHR ''{'' # CHR 0x22 # s) = parse f (ParseMember []) (CHR 0x22 # s)"
  by (simp add: is_ws_def)


lemma parse_object_tail:
  assumes "\<And>k v rest f. (k, v) \<in> set kvs \<Longrightarrow> value_end rest \<Longrightarrow>
      length (print_json pu v @ rest) < f \<Longrightarrow> parse f ParseValue (print_json pu v @ rest) = Some (Inr (v, rest))"
    and "list_all (\<lambda>kv. canonical (snd kv)) kvs"
    and "length (concat (map (\<lambda>(k, v). CHR '','' # escape_str k @ '':'' @ print_json pu v) kvs) @
        CHR ''}'' # rest) < f"
    and "u64_printer_ok pu"
  shows "parse f (ParseObjectRest acc)
      (concat (map (\<lambda>(k, v). CHR '','' # escape_str k @ '':'' @ print_json pu v) kvs) @ CHR ''}'' # rest) =
    Some (Inr (Object (acc @ kvs), rest))"
  using assms
proof (induction kvs arbitrary: acc f)
  case Nil
  then obtain f' where "f = Suc f'" by (cases f) auto
  then show ?case by simp
next
  case (Cons kv kvs)
  obtain k v where kv: "kv = (k, v)" by (cases kv)
  define more where
    "more = concat (map (\<lambda>(k, v). CHR '','' # escape_str k @ '':'' @ print_json pu v) kvs) @ CHR ''}'' # rest"
  have len: "length (escape_str k @ '':'' @ print_json pu v @ more) < f - 1"
    using Cons.prems(3) kv by (simp add: more_def)
  then have "2 \<le> f" by (simp add: escape_str_def)
  define f' where "f' = f - 2"
  have f: "f = Suc (Suc f')" using \<open>2 \<le> f\<close> by (simp add: f'_def)
  have e: "value_end more" by (cases kvs) (auto simp: value_end_def more_def)
  have py: "parse f' ParseValue (print_json pu v @ more) = Some (Inr (v, more))"
    using Cons.prems(1) [of k v more f'] e len f kv by (simp add: escape_str_def)
  have can: "canonical v" using Cons.prems(2) kv by simp
  have sk: "skip_ws more = more" by (cases kvs) (auto simp: is_ws_def more_def escape_str_def)
  have "parse f' (ParseObjectRest (acc @ [(k, v)])) more = Some (Inr (Object ((acc @ [(k, v)]) @ kvs), rest))"
    unfolding more_def
  proof (rule Cons.IH)
    show "parse g ParseValue (print_json pu v' @ rest') = Some (Inr (v', rest'))"
      if "(k', v') \<in> set kvs" "value_end rest'" "length (print_json pu v' @ rest') < g" for k' v' rest' g
      using Cons.prems(1) [of k' v' rest' g] that by simp
    show "list_all (\<lambda>kv. canonical (snd kv)) kvs" using Cons.prems(2) by simp
    show "length (concat (map (\<lambda>(k, v). CHR '','' # escape_str k @ '':'' @ print_json pu v) kvs) @
        CHR ''}'' # rest) < f'"
      using len f by (simp add: more_def escape_str_def)
    show "u64_printer_ok pu" by (rule Cons.prems(4))
  qed
  with kv have tl: "parse f' (ParseObjectRest (acc @ [(k, v)])) more =
      Some (Inr (Object (acc @ kv # kvs), rest))" by simp
  have member: "parse (Suc f') (ParseMember acc) (escape_str k @ '':'' @ print_json pu v @ more) =
      Some (Inr (Object (acc @ kv # kvs), rest))"
    using parse_member [OF py can Cons.prems(4), of acc k] sk tl by simp
  have args: "concat (map (\<lambda>(k, v). CHR '','' # escape_str k @ '':'' @ print_json pu v) (kv # kvs)) @
      CHR ''}'' # rest = CHR '','' # CHR 0x22 # (concat (map escape_char k) @ CHR 0x22 # CHR '':'' # print_json pu v @ more)"
    by (simp add: kv more_def escape_str_def)
  have key: "CHR 0x22 # (concat (map escape_char k) @ CHR 0x22 # CHR '':'' # print_json pu v @ more) =
      escape_str k @ '':'' @ print_json pu v @ more"
    by (simp add: escape_str_def)
  show ?case
    unfolding args f parse_object_comma unfolding key by (rule member)
qed


lemma parse_print_json:
  assumes pu: "u64_printer_ok pu"
  shows "canonical j \<Longrightarrow> value_end rest \<or> (\<exists>kvs. j = Object kvs) \<Longrightarrow>
   length (print_json pu j @ rest) < f \<Longrightarrow>
   parse f ParseValue (print_json pu j @ rest) = Some (Inr (j, rest))"
proof (induction j arbitrary: rest f)
  case (I64 i)
  from I64.prems(3) obtain f' where f: "f = Suc f'" by (cases f) auto
  with I64.prems parse_number_encode_i64 [of i rest] show ?case
    by (simp add: encode_i64_def parse_scalar_def)
next
  case (U64 n)
  from U64.prems(3) obtain f' where f: "f = Suc f'" by (cases f) auto
  from pu obtain c cs where dc: "pu n = c # cs" and c: "is_digit c"
    unfolding u64_printer_ok_def by (metis list.collapse)
  from pu U64.prems(2) have "parse_number (pu n @ rest) = Inr (U64 n, rest)"
    by (simp add: u64_printer_ok_def)
  with f dc c is_digit_not_special [OF c] show ?case
    by (simp add: parse_scalar_def)
next
  case (F64 lit)
  then show ?case by simp
next
  case (String str)
  from String.prems(3) obtain f' where f: "f = Suc f'" by (cases f) auto
  then show ?case by (simp add: escape_str_def parse_scalar_def parse_str_escaped is_digit_def)
next
  case (Boolean b)
  from Boolean.prems(3) obtain f' where f: "f = Suc f'" by (cases f) auto
  then show ?case by (cases b) (simp_all add: parse_scalar_def parse_ident_def)
next
  case Null
  from Null.prems(3) obtain f' where f: "f = Suc f'" by (cases f) auto
  then show ?case by (simp add: parse_scalar_def parse_ident_def)
next
  case (List xs)
  from List.prems(3) obtain f' where f: "f = Suc f'" by (cases f) auto
  show ?case
  proof (cases xs)
    case Nil
    with f show ?thesis by (simp add: is_ws_def is_digit_def parse_scalar_def)
  next
    case (Cons x xs')
    have can: "canonical x" "list_all canonical xs'" using List.prems(1) Cons by simp_all
    define more where "more = concat (map (\<lambda>y. CHR '','' # print_json pu y) xs') @ CHR '']'' # rest"
    have enc: "print_json pu (List xs) @ rest = CHR ''['' # print_json pu x @ more"
      by (simp add: Cons more_def comma_sep_Cons comp_def)
    have len: "length (print_json pu x @ more) < f'" using List.prems(3) [unfolded enc f] by simp
    have e: "value_end more" by (cases xs') (simp_all add: value_end_def more_def)
    have px: "parse f' ParseValue (print_json pu x @ more) = Some (Inr (x, more))"
      using List.IH [of x more f'] Cons can e len by simp
    have "parse f' (ParseListRest [x]) more = Some (Inr (List ([x] @ xs'), rest))"
      unfolding more_def
    proof (rule parse_list_tail)
      show "parse g ParseValue (print_json pu y @ r) = Some (Inr (y, r))"
        if "y \<in> set xs'" "value_end r" "length (print_json pu y @ r) < g" for y r g
        using List.IH [of y r g] that Cons can(2) by (simp add: list_all_iff)
      show "list_all canonical xs'" by (rule can(2))
      show "length (concat (map (\<lambda>y. CHR '','' # print_json pu y) xs') @ CHR '']'' # rest) < f'"
        using len by (simp add: more_def)
      show "u64_printer_ok pu" by (rule pu)
    qed
    then have tl: "parse f' (ParseListRest [x]) more = Some (Inr (List xs, rest))" by (simp add: Cons)
    have sk: "skip_ws more = more" by (cases xs') (simp_all add: more_def is_ws_def)
    show ?thesis
      unfolding enc f
      using px tl sk skip_ws_print_json [OF pu can(1), of more] print_json_not_close [OF pu can(1), of more]
      by simp
  qed
next
  case (Object kvs)
  from Object.prems(3) obtain f' where f: "f = Suc f'" by (cases f) auto
  show ?case
  proof (cases kvs)
    case Nil
    with f show ?thesis by (simp add: is_ws_def is_digit_def parse_scalar_def)
  next
    case (Cons kv kvs')
    obtain k v where kv: "kv = (k, v)" by (cases kv)
    have can: "canonical v" "list_all (\<lambda>kv. canonical (snd kv)) kvs'"
      using Object.prems(1) Cons kv by simp_all
    define more where
      "more = concat (map (\<lambda>(k, v). CHR '','' # escape_str k @ '':'' @ print_json pu v) kvs') @ CHR ''}'' # rest"
    have key: "CHR 0x22 # (concat (map escape_char k) @ CHR 0x22 # CHR '':'' # print_json pu v @ more) =
        escape_str k @ '':'' @ print_json pu v @ more"
      by (simp add: escape_str_def)
    have enc: "print_json pu (Object kvs) @ rest =
        CHR ''{'' # CHR 0x22 # (concat (map escape_char k) @ CHR 0x22 # CHR '':'' # print_json pu v @ more)"
      by (simp add: Cons kv more_def comma_sep_Cons comp_def escape_str_def split_def)
    have len: "length (escape_str k @ '':'' @ print_json pu v @ more) < f'"
      using Object.prems(3) [unfolded enc f key] by simp
    then obtain f'' where f': "f' = Suc f''" by (cases f') auto
    have e: "value_end more" by (cases kvs') (auto simp: value_end_def more_def)
    have pv: "parse f'' ParseValue (print_json pu v @ more) = Some (Inr (v, more))"
      using Object.IH [of kv v more f''] Cons kv can e len f' by (simp add: escape_str_def)
    have "parse f'' (ParseObjectRest [(k, v)]) more = Some (Inr (Object ([(k, v)] @ kvs'), rest))"
      unfolding more_def
    proof (rule parse_object_tail)
      show "parse g ParseValue (print_json pu v' @ r) = Some (Inr (v', r))"
        if "(k', v') \<in> set kvs'" "value_end r" "length (print_json pu v' @ r) < g" for k' v' r g
        using Object.IH [of "(k', v')" v' r g] that Cons can(2) by (auto simp: list_all_iff)
      show "list_all (\<lambda>kv. canonical (snd kv)) kvs'" by (rule can(2))
      show "length (concat (map (\<lambda>(k, v). CHR '','' # escape_str k @ '':'' @ print_json pu v) kvs') @
          CHR ''}'' # rest) < f''"
        using len f' by (simp add: more_def escape_str_def)
      show "u64_printer_ok pu" by (rule pu)
    qed
    then have tl: "parse f'' (ParseObjectRest [(k, v)]) more = Some (Inr (Object kvs, rest))"
      by (simp add: Cons kv)
    have sk: "skip_ws more = more" by (cases kvs') (auto simp: is_ws_def more_def escape_str_def)
    have member: "parse (Suc f'') (ParseMember []) (escape_str k @ '':'' @ print_json pu v @ more) =
        Some (Inr (Object kvs, rest))"
      using parse_member [OF pv can(1) pu, of "[]" k] sk tl by simp
    show ?thesis
      unfolding enc f parse_object_open unfolding key f' by (rule member)
  qed
qed

lemma json_from_str_print:
  "u64_printer_ok pu \<Longrightarrow> canonical j \<Longrightarrow> json_from_str (print_json pu j) = Inr j"
  using parse_print_json [of pu j "[]" "Suc (length (print_json pu j))"] skip_ws_print_json [of pu j "[]"]
  by (simp add: json_from_str_def value_end_def)

text \<open>An object is closed by its brace, whatever follows it: the text of an object
  followed by more than blanks is refused as trailing characters.\<close>

lemma json_from_str_object_append:
  assumes "u64_printer_ok pu" and "canonical (Object kvs)"
  shows "json_from_str (print_json pu (Object kvs) @ t) =
    (if skip_ws t = [] then Inr (Object kvs) else Inl TrailingCharacters)"
proof -
  have "parse (Suc (length (print_json pu (Object kvs) @ t))) ParseValue (print_json pu (Object kvs) @ t) =
      Some (Inr (Object kvs, t))"
    by (rule parse_print_json [OF assms(1,2)]) simp_all
  then show ?thesis
    using skip_ws_print_json [OF assms(1,2), of t] by (simp add: json_from_str_def)
qed

lemma json_from_str_object_trailing:
  assumes "u64_printer_ok pu" and "canonical (Object kvs)" and "skip_ws t \<noteq> []"
  shows "json_from_str (print_json pu (Object kvs) @ t) = Inl TrailingCharacters"
  using json_from_str_object_append [OF assms(1,2), of t] assms(3) by simp

lemma encode_u64_printer_ok: "u64_printer_ok encode_u64"
proof -
  have "encode_u64 n \<noteq> [] \<and> is_digit (hd (encode_u64 n))" for n
    by (cases "unat n" rule: decimal_Cons) (simp add: encode_u64_def)
  then show ?thesis
    by (simp add: u64_printer_ok_def parse_number_encode_u64)
qed

lemma json_from_str_encode: "canonical j \<Longrightarrow> json_from_str (encode_json j) = Inr j"
  unfolding encode_json_def by (rule json_from_str_print [OF encode_u64_printer_ok])

section \<open>Text that cannot start a value\<close>

lemma skip_ws_append: "skip_ws c \<noteq> [] \<Longrightarrow> skip_ws (c @ t) = skip_ws c @ t"
  by (induction c) auto

lemma json_from_str_bad_start:
  "skip_ws s = d # r \<Longrightarrow> \<not> value_start d \<Longrightarrow> json_from_str s = Inl InvalidSyntax"
  by (simp add: json_from_str_def value_start_def parse_scalar_def)

section \<open>Blanks before a value\<close>

lemma skip_ws_append_blank: "skip_ws c = [] \<Longrightarrow> skip_ws (c @ s) = skip_ws s"
  by (induction c) (auto split: if_splits)

lemma skip_ws_append_cases:
  "skip_ws (c @ s) = (if skip_ws c = [] then skip_ws s else skip_ws c @ s)"
  using skip_ws_append [of c s] skip_ws_append_blank [of c s] by simp

lemma json_from_str_blank_prefix:
  assumes "skip_ws c = []"
  shows "json_from_str (c @ s) = json_from_str s"
proof -
  obtain r where r: "parse (Suc (length s)) ParseValue (skip_ws s) = Some r"
    using json_from_str_fuel [of s] by blast
  have "parse (Suc (length (c @ s))) ParseValue (skip_ws s) = Some r"
    using r by (rule parse_fuel_le) simp
  with r show ?thesis by (simp add: json_from_str_def skip_ws_append_blank [OF assms])
qed

end
