(* ===== verification/Config.thy ===== *)
theory Config
  imports Prelude
begin

text \<open>
  The configuration snapshot, \<open>struct Config\<close> of \<open>src/src/config.rs\<close> (lines 9--34),
  as a record with the source's field names and types: \<open>u32\<close> fields are 32-bit
  words, a Rust \<open>String\<close> is a byte string, \<open>Vec<String>\<close> a list and the
  \<open>(String, String)\<close> pair a product. The compiled-in fallback of
  \<open>Config::initialize\<close> (lines 66--82) is \<open>default_config\<close>, a function of the home
  directory because the log-file path is built from it. The derived \<open>Clone\<close>
  copies the eleven fields one at a time, in declaration order; \<open>copy_field\<close> and
  \<open>clone_prefix\<close> model that copy so that a reader interrupted half-way can be
  described (theory \<open>Config_Lock\<close>); the full copy yields the source whatever the
  destination held (\<open>clone_prefix_full\<close>).
\<close>

record config =
  focus_follows_mouse :: bool
  focus_border_color :: u32
  border_color :: u32
  border_width :: u32
  spacing :: u32
  terminal :: "string \<times> string"
  terminal_key :: string
  logfile :: string
  tags :: "string list"
  launcher :: string
  launch_key :: string

text \<open>Number of fields of the struct, the length of a field-by-field clone.\<close>

definition config_field_count :: nat where
  "config_field_count = 11"

text \<open>The default snapshot of \<open>Config::initialize\<close>; \<open>home\<close> is
  \<open>homedir().unwrap().to_c_str()\<close>.\<close>

definition default_config :: "string \<Rightarrow> config" where
  "default_config home =
     \<lparr>focus_follows_mouse = True,
      focus_border_color = 0x00B6FFB0,
      border_color = 0x00FFB6B0,
      border_width = 2,
      spacing = 10,
      terminal = (''xterm'', ''-fg White -bg Black''),
      terminal_key = ''Return'',
      logfile = home @ ''/.wtftw.log'',
      tags = [''1: term'', ''2: web'', ''3: code'', ''4 media''],
      launcher = ''gmrun'',
      launch_key = ''p''\<rparr>"

text \<open>Step \<open>k\<close> of the derived \<open>Clone\<close>: the \<open>k\<close>-th field of the source is
  copied into the destination being built.\<close>

fun copy_field :: "nat \<Rightarrow> config \<Rightarrow> config \<Rightarrow> config" where
  "copy_field 0 src dst = dst\<lparr>focus_follows_mouse := focus_follows_mouse src\<rparr>"
| "copy_field (Suc 0) src dst = dst\<lparr>focus_border_color := focus_border_color src\<rparr>"
| "copy_field (Suc (Suc 0)) src dst = dst\<lparr>border_color := border_color src\<rparr>"
| "copy_field (Suc (Suc (Suc 0))) src dst = dst\<lparr>border_width := border_width src\<rparr>"
| "copy_field (Suc (Suc (Suc (Suc 0)))) src dst = dst\<lparr>spacing := spacing src\<rparr>"
| "copy_field (Suc (Suc (Suc (Suc (Suc 0))))) src dst = dst\<lparr>terminal := terminal src\<rparr>"
| "copy_field (Suc (Suc (Suc (Suc (Suc (Suc 0)))))) src dst =
     dst\<lparr>terminal_key := terminal_key src\<rparr>"
| "copy_field (Suc (Suc (Suc (Suc (Suc (Suc (Suc 0))))))) src dst =
     dst\<lparr>logfile := logfile src\<rparr>"
| "copy_field (Suc (Suc (Suc (Suc (Suc (Suc (Suc (Suc 0)))))))) src dst =
     dst\<lparr>tags := tags src\<rparr>"
| "copy_field (Suc (Suc (Suc (Suc (Suc (Suc (Suc (Suc (Suc 0))))))))) src dst =
     dst\<lparr>launcher := launcher src\<rparr>"
| "copy_field (Suc (Suc (Suc (Suc (Suc (Suc (Suc (Suc (Suc (Suc 0)))))))))) src dst =
     dst\<lparr>launch_key := launch_key src\<rparr>"
| "copy_field (Suc (Suc (Suc (Suc (Suc (Suc (Suc (Suc (Suc (Suc (Suc _))))))))))) src dst = dst"

text \<open>The first \<open>k\<close> steps of the clone.\<close>

fun clone_prefix :: "nat \<Rightarrow> config \<Rightarrow> config \<Rightarrow> config" where
  "clone_prefix 0 src dst = dst"
| "clone_prefix (Suc k) src dst = copy_field k src (clone_prefix k src dst)"

section \<open>Lemmas\<close>

text \<open>Copying a field from a source into a destination that already agrees with the
  source changes nothing.\<close>

lemma copy_field_same [simp]: "copy_field k src src = src"
  by (cases "(k, src, src)" rule: copy_field.cases) simp_all

lemma copy_field_idem [simp]: "copy_field k src (copy_field k src dst) = copy_field k src dst"
  by (cases "(k, src, dst)" rule: copy_field.cases) simp_all

text \<open>Field \<open>k\<close> is not among the first \<open>k\<close>: copying it commutes with copying
  those.\<close>

lemma clone_prefix_copy_field:
  assumes "k < config_field_count"
  shows "clone_prefix k src (copy_field k src dst) = copy_field k src (clone_prefix k src dst)"
proof -
  from assms have "k \<in> {0..<11}"
    by (simp add: config_field_count_def)
  then have "k \<in> {0, 1, 2, 3, 4, 5, 6, 7, 8, 9, 10}"
    by (auto simp: atLeast0LessThan lessThan_nat_numeral)
  then show ?thesis
    by (cases src, cases dst) (auto simp: numeral_eq_Suc)
qed

lemma clone_prefix_same [simp]: "clone_prefix k src src = src"
  by (induction k) simp_all

lemma clone_prefix_full: "clone_prefix config_field_count src dst = src"
  by (cases src, cases dst) (simp add: config_field_count_def eval_nat_numeral)

lemma clone_prefix_field_count_ge:
  "config_field_count \<le> k \<Longrightarrow> clone_prefix k src dst = src"
proof (induction k)
  case 0
  then show ?case by (simp add: config_field_count_def)
next
  case (Suc k)
  show ?case
  proof (cases "config_field_count \<le> k")
    case True
    with Suc.IH have "clone_prefix k src dst = src" by simp
    then show ?thesis by simp
  next
    case False
    with Suc.prems have "Suc k = config_field_count" by simp
    then show ?thesis by (metis clone_prefix_full)
  qed
qed

end
