(* ===== verification/Codec.thy ===== *)
theory Codec
  imports Json_Parser Config
begin

text \<open>
  The codec of \<open>Config\<close>: the code that \<open>#[deriving(Encodable,Decodable)]\<close>
  (\<open>src/src/config.rs\<close>, lines 9--34) generates for the struct, run against the JSON
  encoder and decoder of \<open>serialize::json\<close>, and the two entry points the source
  calls, \<open>json::encode\<close> (line 92) and \<open>json::decode\<close> (line 86).

  The derived \<open>encode\<close> calls \<open>emit_struct\<close> and, for each field in declaration
  order, \<open>emit_struct_field\<close> with the field's name and index; the tuple and the vector
  are emitted as sequences. \<open>encode_config\<close> is that streaming output;
  \<open>encode_config_tree\<close> shows it is the printing of the JSON value
  \<open>config_to_json\<close>. The derived \<open>decode\<close> calls \<open>read_struct\<close> and, for each
  field in declaration order, \<open>read_struct_field\<close>, which expects an object on the
  decoder's stack, takes the field's binding out of it and decodes it; a missing field
  is decoded from \<open>Null\<close>, and its failure reported as \<open>MissingFieldError\<close>. The
  first error ends the decoding (\<open>try!\<close>, modelled by \<open>sbind\<close>). Which error that
  is, is given by the reference \<open>config_decode_error\<close>: the first, in declaration
  order, of the errors the fields give alone (\<open>field_error\<close>, \<open>first_error\<close>).
\<close>

section \<open>The error monad of the decoder\<close>

definition sbind :: "'e + 'a \<Rightarrow> ('a \<Rightarrow> 'e + 'b) \<Rightarrow> 'e + 'b" where
  "sbind m k = (case m of Inl e \<Rightarrow> Inl e | Inr x \<Rightarrow> k x)"

section \<open>Encoding\<close>

text \<open>The primitive emitters of \<open>json::Encoder\<close> the derived code reaches:
  \<open>emit_bool\<close>, \<open>emit_u32\<close> (\<open>Display\<close> of the integer), \<open>emit_str\<close>, a sequence
  (\<open>emit_seq\<close> with \<open>emit_seq_elt\<close>, used by the tuple and by \<open>Vec\<close>), and a
  struct field (\<open>emit_struct_field\<close>: a comma unless it is the first field, the
  escaped name, a colon, the value).\<close>

definition emit_bool :: "bool \<Rightarrow> string" where
  "emit_bool b = (if b then ''true'' else ''false'')"

definition emit_u32 :: "u32 \<Rightarrow> string" where
  "emit_u32 n = decimal (unat n)"

definition emit_str :: "string \<Rightarrow> string" where
  "emit_str s = escape_str s"

definition emit_seq :: "string list \<Rightarrow> string" where
  "emit_seq elts = ''['' @ comma_sep elts @ '']''"

definition emit_struct_field :: "string \<Rightarrow> nat \<Rightarrow> string \<Rightarrow> string" where
  "emit_struct_field name idx v = (if idx = 0 then [] else '','') @ escape_str name @ '':'' @ v"

text \<open>\<open>json::encode(&conf)\<close>: the derived \<open>Encodable::encode\<close> of \<open>Config\<close>.\<close>

definition encode_config :: "config \<Rightarrow> string" where
  "encode_config c =
     ''{'' @
     emit_struct_field ''focus_follows_mouse'' 0 (emit_bool (focus_follows_mouse c)) @
     emit_struct_field ''focus_border_color'' 1 (emit_u32 (focus_border_color c)) @
     emit_struct_field ''border_color'' 2 (emit_u32 (border_color c)) @
     emit_struct_field ''border_width'' 3 (emit_u32 (border_width c)) @
     emit_struct_field ''spacing'' 4 (emit_u32 (spacing c)) @
     emit_struct_field ''terminal'' 5
       (emit_seq [emit_str (fst (terminal c)), emit_str (snd (terminal c))]) @
     emit_struct_field ''terminal_key'' 6 (emit_str (terminal_key c)) @
     emit_struct_field ''logfile'' 7 (emit_str (logfile c)) @
     emit_struct_field ''tags'' 8 (emit_seq (map emit_str (tags c))) @
     emit_struct_field ''launcher'' 9 (emit_str (launcher c)) @
     emit_struct_field ''launch_key'' 10 (emit_str (launch_key c)) @
     ''}''"

text \<open>The same encoding as a JSON value: one member per field, in declaration
  order; an unsigned integer is a \<open>U64\<close>.\<close>

definition config_members :: "config \<Rightarrow> (string \<times> json) list" where
  "config_members c =
     [(''focus_follows_mouse'', Boolean (focus_follows_mouse c)),
      (''focus_border_color'', U64 (ucast (focus_border_color c))),
      (''border_color'', U64 (ucast (border_color c))),
      (''border_width'', U64 (ucast (border_width c))),
      (''spacing'', U64 (ucast (spacing c))),
      (''terminal'', List [String (fst (terminal c)), String (snd (terminal c))]),
      (''terminal_key'', String (terminal_key c)),
      (''logfile'', String (logfile c)),
      (''tags'', List (map String (tags c))),
      (''launcher'', String (launcher c)),
      (''launch_key'', String (launch_key c))]"

definition config_to_json :: "config \<Rightarrow> json" where
  "config_to_json c = Object (config_members c)"

section \<open>Decoding\<close>

text \<open>The primitive readers of \<open>json::Decoder\<close>. \<open>read_u32\<close> is the library's
  \<open>read_primitive!\<close>: an integer is converted with \<open>num::cast\<close> (range checked), a
  float is refused, and a string is parsed with \<open>from_str::<u32>\<close> (decimal digits
  whose value fits); anything else is refused.\<close>

definition read_bool :: "json \<Rightarrow> decoder_error + bool" where
  "read_bool j = (case j of Boolean b \<Rightarrow> Inr b | _ \<Rightarrow> Inl (ExpectedError ''Boolean''))"

definition u32_from_str :: "string \<Rightarrow> u32 option" where
  "u32_from_str s =
     (if s \<noteq> [] \<and> list_all is_digit s \<and> digits_value 0 s < 2 ^ 32
      then Some (word_of_nat (digits_value 0 s)) else None)"

definition read_u32 :: "json \<Rightarrow> decoder_error + u32" where
  "read_u32 j =
     (case j of
        I64 i \<Rightarrow> if 0 \<le> sint i \<and> sint i < 2 ^ 32 then Inr (word_of_int (sint i))
                 else Inl (ExpectedError ''Number'')
      | U64 n \<Rightarrow> if unat n < 2 ^ 32 then Inr (ucast n) else Inl (ExpectedError ''Number'')
      | F64 _ \<Rightarrow> Inl (ExpectedError ''Integer'')
      | String s \<Rightarrow> (case u32_from_str s of Some n \<Rightarrow> Inr n | None \<Rightarrow> Inl (ExpectedError ''Number''))
      | _ \<Rightarrow> Inl (ExpectedError ''Number''))"

definition read_str :: "json \<Rightarrow> decoder_error + string" where
  "read_str j = (case j of String s \<Rightarrow> Inr s | _ \<Rightarrow> Inl (ExpectedError ''String''))"

text \<open>\<open>read_seq\<close> with one \<open>read_seq_elt\<close> per element, stopping at the first
  error (the derived decoder of \<open>Vec<String>\<close>).\<close>

fun read_elts :: "json list \<Rightarrow> decoder_error + string list" where
  "read_elts [] = Inr []"
| "read_elts (x # xs) = sbind (read_str x) (\<lambda>s. sbind (read_elts xs) (\<lambda>ss. Inr (s # ss)))"

definition read_string_vec :: "json \<Rightarrow> decoder_error + string list" where
  "read_string_vec j = (case j of List xs \<Rightarrow> read_elts xs | _ \<Rightarrow> Inl (ExpectedError ''List''))"

text \<open>The decoder of \<open>(String, String)\<close>: \<open>read_tuple\<close> expects an array, and
  the two \<open>read_tuple_arg\<close> read its elements in order. An array of another length
  is refused with an error. The library's source is not in the repository, and releases
  of that time differ on this case: a tuple decoder that reads the elements first and
  then asserts the length would panic instead (see Not modelled in the root theory).\<close>

definition read_string_pair :: "json \<Rightarrow> decoder_error + (string \<times> string)" where
  "read_string_pair j =
     (case j of
        List [a, b] \<Rightarrow> sbind (read_str a) (\<lambda>x. sbind (read_str b) (\<lambda>y. Inr (x, y)))
      | List _ \<Rightarrow> Inl (ExpectedError ''Tuple2'')
      | _ \<Rightarrow> Inl (ExpectedError ''List''))"

text \<open>\<open>read_struct_field\<close>: the object's binding of the name is taken out of the
  object (\<open>TreeMap::pop\<close>) and decoded; without a binding \<open>Null\<close> is decoded
  instead (so that an \<open>Option\<close> field may be absent), and a failure there is
  reported as the missing field. The object left is handed to the next field.\<close>

definition remove_key :: "string \<Rightarrow> (string \<times> json) list \<Rightarrow> (string \<times> json) list" where
  "remove_key k kvs = filter (\<lambda>kv. fst kv \<noteq> k) kvs"

definition read_struct_field ::
    "string \<Rightarrow> (json \<Rightarrow> decoder_error + 'a) \<Rightarrow> (string \<times> json) list \<Rightarrow>
     decoder_error + ('a \<times> (string \<times> json) list)" where
  "read_struct_field name dec obj =
     (case lookup_last obj name of
        None \<Rightarrow> (case dec Null of Inl _ \<Rightarrow> Inl (MissingFieldError name) | Inr x \<Rightarrow> Inr (x, obj))
      | Some j \<Rightarrow> sbind (dec j) (\<lambda>x. Inr (x, remove_key name obj)))"

text \<open>The derived \<open>Decodable::decode\<close> of \<open>Config\<close>: \<open>read_struct\<close> and eleven
  \<open>read_struct_field\<close> calls in declaration order; the first of them finds the value
  on the stack not to be an object when it is not one.\<close>

definition config_from_json :: "json \<Rightarrow> decoder_error + config" where
  "config_from_json j =
     (case j of
        Object obj0 \<Rightarrow>
          sbind (read_struct_field ''focus_follows_mouse'' read_bool obj0) (\<lambda>(ffm, obj1).
          sbind (read_struct_field ''focus_border_color'' read_u32 obj1) (\<lambda>(fbc, obj2).
          sbind (read_struct_field ''border_color'' read_u32 obj2) (\<lambda>(bc, obj3).
          sbind (read_struct_field ''border_width'' read_u32 obj3) (\<lambda>(bw, obj4).
          sbind (read_struct_field ''spacing'' read_u32 obj4) (\<lambda>(sp, obj5).
          sbind (read_struct_field ''terminal'' read_string_pair obj5) (\<lambda>(term, obj6).
          sbind (read_struct_field ''terminal_key'' read_str obj6) (\<lambda>(tk, obj7).
          sbind (read_struct_field ''logfile'' read_str obj7) (\<lambda>(lf, obj8).
          sbind (read_struct_field ''tags'' read_string_vec obj8) (\<lambda>(tg, obj9).
          sbind (read_struct_field ''launcher'' read_str obj9) (\<lambda>(la, obj10).
          sbind (read_struct_field ''launch_key'' read_str obj10) (\<lambda>(lk, obj11).
          Inr \<lparr>focus_follows_mouse = ffm, focus_border_color = fbc, border_color = bc,
               border_width = bw, spacing = sp, terminal = term, terminal_key = tk,
               logfile = lf, tags = tg, launcher = la, launch_key = lk\<rparr>)))))))))))
      | _ \<Rightarrow> Inl (ExpectedError ''Object''))"

text \<open>\<open>json::decode::<Config>(s)\<close>: parse, then decode.\<close>

definition json_decode_config :: "string \<Rightarrow> decoder_error + config" where
  "json_decode_config s =
     (case json_from_str s of Inl e \<Rightarrow> Inl (ParseError e) | Inr j \<Rightarrow> config_from_json j)"

text \<open>The names of the fields, in declaration order.\<close>

definition config_field_names :: "string list" where
  "config_field_names =
     [''focus_follows_mouse'', ''focus_border_color'', ''border_color'', ''border_width'',
      ''spacing'', ''terminal'', ''terminal_key'', ''logfile'', ''tags'', ''launcher'',
      ''launch_key'']"

text \<open>The last binding of \<open>name\<close> in the object decodes to \<open>v\<close>.\<close>

definition field_decodes ::
    "(string \<times> json) list \<Rightarrow> string \<Rightarrow> (json \<Rightarrow> decoder_error + 'a) \<Rightarrow> 'a \<Rightarrow> bool" where
  "field_decodes obj name dec v \<longleftrightarrow> (case lookup_last obj name of Some j \<Rightarrow> dec j = Inr v | None \<Rightarrow> False)"

text \<open>A text an editor may write for an unsigned integer: the integer plus
  \<open>2^64\<close> in decimal (zero as \<open>0\<close>, since \<open>2^64\<close> itself is refused).\<close>

definition wrap_u64_text :: "u64 \<Rightarrow> string" where
  "wrap_u64_text n = (if n = 0 then ''0'' else decimal (unat n + 2 ^ 64))"

text \<open>A reference for the errors of the decoder: the error each field would give on
  its own (\<open>field_error\<close>, the same paths as \<open>read_struct_field\<close>), and the first
  of them in declaration order (\<open>first_error\<close>).\<close>

definition field_error ::
    "(string \<times> json) list \<Rightarrow> string \<Rightarrow> (json \<Rightarrow> decoder_error + 'a) \<Rightarrow> decoder_error option" where
  "field_error obj name dec =
     (case lookup_last obj name of
        None \<Rightarrow> (case dec Null of Inl _ \<Rightarrow> Some (MissingFieldError name) | Inr _ \<Rightarrow> None)
      | Some j \<Rightarrow> (case dec j of Inl e \<Rightarrow> Some e | Inr _ \<Rightarrow> None))"

fun first_error :: "decoder_error option list \<Rightarrow> decoder_error option" where
  "first_error [] = None"
| "first_error (Some e # _) = Some e"
| "first_error (None # rest) = first_error rest"

definition config_decode_error :: "json \<Rightarrow> decoder_error option" where
  "config_decode_error j =
     (case j of
        Object obj \<Rightarrow>
          first_error
            [field_error obj ''focus_follows_mouse'' read_bool,
             field_error obj ''focus_border_color'' read_u32,
             field_error obj ''border_color'' read_u32,
             field_error obj ''border_width'' read_u32,
             field_error obj ''spacing'' read_u32,
             field_error obj ''terminal'' read_string_pair,
             field_error obj ''terminal_key'' read_str,
             field_error obj ''logfile'' read_str,
             field_error obj ''tags'' read_string_vec,
             field_error obj ''launcher'' read_str,
             field_error obj ''launch_key'' read_str]
      | _ \<Rightarrow> Some (ExpectedError ''Object''))"

section \<open>Lemmas\<close>

lemma sbind_simps [simp]:
  "sbind (Inl e) k = Inl e"
  "sbind (Inr x) k = k x"
  by (simp_all add: sbind_def)

lemma sbind_Inr: "sbind m k = Inr y \<longleftrightarrow> (\<exists>x. m = Inr x \<and> k x = Inr y)"
  by (cases m) simp_all

lemma read_u32_ucast [simp]: "read_u32 (U64 (ucast n)) = Inr n"
proof -
  have "unat n < 2 ^ LENGTH(32)" by (rule unsigned_less)
  then show ?thesis by (simp add: read_u32_def)
qed

lemma read_elts_strings [simp]: "read_elts (map String ss) = Inr ss"
  by (induction ss) (simp_all add: read_str_def)

lemma encode_config_tree: "encode_config c = encode_json (config_to_json c)"
  by (simp add: encode_config_def config_to_json_def config_members_def emit_struct_field_def emit_bool_def emit_u32_def
      emit_str_def [abs_def] emit_seq_def encode_u64_def comp_def)

lemma config_to_json_canonical: "canonical (config_to_json c)"
  by (simp add: config_to_json_def config_members_def list_all_iff)

lemma config_from_json_to_json: "config_from_json (config_to_json c) = Inr c"
  by (simp add: config_to_json_def config_members_def config_from_json_def read_struct_field_def remove_key_def
      lookup_last_def read_bool_def read_str_def read_string_pair_def read_string_vec_def)

lemma json_decode_config_encode_json:
  "canonical j \<Longrightarrow> json_decode_config (encode_json j) = config_from_json j"
  by (simp add: json_decode_config_def json_from_str_encode)

lemma json_decode_config_empty: "json_decode_config [] = Inl (ParseError EOFWhileParsingValue)"
  by (simp add: json_decode_config_def json_from_str_def)

lemma json_decode_config_bad_start:
  "skip_ws s = d # r \<Longrightarrow> \<not> value_start d \<Longrightarrow> json_decode_config s = Inl (ParseError InvalidSyntax)"
  by (simp add: json_decode_config_def json_from_str_bad_start)

lemma encode_config_head: "\<exists>t. encode_config c = CHR ''{'' # t"
  by (simp add: encode_config_tree config_to_json_def config_members_def)

lemma skip_ws_encode_config: "skip_ws (t @ encode_config c) \<noteq> []"
  using encode_config_head [of c] by (auto simp: skip_ws_append_cases is_ws_def)

lemma json_decode_config_blank_prefix:
  "skip_ws c = [] \<Longrightarrow> json_decode_config (c @ s) = json_decode_config s"
  by (simp add: json_decode_config_def json_from_str_blank_prefix)

lemma json_decode_config_object_trailing:
  "canonical (Object kvs) \<Longrightarrow> skip_ws t \<noteq> [] \<Longrightarrow>
   json_decode_config (encode_json (Object kvs) @ t) = Inl (ParseError TrailingCharacters)"
  using json_from_str_object_trailing [OF encode_u64_printer_ok, of kvs t]
  by (simp add: json_decode_config_def encode_json_def)

lemma json_decode_config_encode_append:
  assumes "skip_ws t = []"
  shows "json_decode_config (encode_config c @ t) = Inr c"
proof -
  have "json_from_str (print_json encode_u64 (Object (config_members c)) @ t) = Inr (Object (config_members c))"
    using json_from_str_object_append [OF encode_u64_printer_ok
        config_to_json_canonical [of c, unfolded config_to_json_def], of t]
    using assms by (simp del: print_json.simps)
  then show ?thesis
    unfolding json_decode_config_def encode_config_tree encode_json_def config_to_json_def
    using config_from_json_to_json [of c, unfolded config_to_json_def] by (simp only: sum.case)
qed

text \<open>What the start-up procedure needs of the codec: the encoding of a snapshot
  decodes to it.\<close>

lemmas codec_roundtrip = encode_config_tree json_decode_config_encode_json
  config_to_json_canonical config_from_json_to_json

lemma lookup_last_remove_key [simp]:
  "lookup_last (remove_key k obj) n = (if n = k then None else lookup_last obj n)"
  by (induction obj rule: rev_induct) (auto simp: remove_key_def)

lemma field_decodes_remove_key [simp]:
  "n \<noteq> k \<Longrightarrow> field_decodes (remove_key k obj) n dec v = field_decodes obj n dec v"
  by (simp add: field_decodes_def)

lemma read_struct_field_step:
  assumes "\<And>y. dec Null \<noteq> Inr y"
  shows "sbind (read_struct_field name dec obj) (\<lambda>(x, obj'). k x obj') = Inr c \<longleftrightarrow>
    (\<exists>x. field_decodes obj name dec x \<and> k x (remove_key name obj) = Inr c)"
  using assms
  by (auto simp: read_struct_field_def field_decodes_def sbind_def split: option.splits sum.splits)

lemma field_readers_reject_Null:
  "read_bool Null \<noteq> Inr b" "read_u32 Null \<noteq> Inr n" "read_str Null \<noteq> Inr s"
  "read_string_pair Null \<noteq> Inr p" "read_string_vec Null \<noteq> Inr ss"
  by (simp_all add: read_bool_def read_u32_def read_str_def read_string_pair_def read_string_vec_def)

lemma u32_from_str_decimal [simp]: "u32_from_str (decimal (unat w)) = Some w"
proof -
  have "unat w < 2 ^ LENGTH(32)" by (rule unsigned_less)
  then show ?thesis
    using decimal_all_digits [of "unat w"]
    by (simp add: u32_from_str_def digits_value_decimal list_all_iff)
qed

lemma read_u32_string_decimal: "read_u32 (String (decimal (unat w))) = Inr w"
  by (simp add: read_u32_def)

lemma wrap_u64_text_ok: "u64_printer_ok wrap_u64_text"
proof -
  have "wrap_u64_text n \<noteq> [] \<and> is_digit (hd (wrap_u64_text n)) \<and>
        (\<forall>rest. value_end rest \<longrightarrow> parse_number (wrap_u64_text n @ rest) = Inr (U64 n, rest))" for n
  proof (cases "n = 0")
    case True
    have "decimal 0 = ''0''"
      using digit_char_zero_iff [of 0] by (simp add: decimal.simps)
    moreover have "parse_number (''0'' @ rest) = Inr (U64 0, rest)" if "value_end rest" for rest
    proof -
      have "parse_u64 (decimal 0 @ rest) = Inr (0, rest)"
        using parse_u64_decimal [of 0 rest] value_end_not_digit [OF that] by simp
      with \<open>decimal 0 = ''0''\<close> that parse_number_unsigned [of "CHR ''0''" "[]" rest 0]
      show ?thesis by (simp add: is_digit_def)
    qed
    ultimately show ?thesis using True by (simp add: wrap_u64_text_def is_digit_def)
  next
    case False
    define m where "m = unat n + 2 ^ 64"
    obtain c cs where dc: "decimal m = c # cs" and c: "is_digit c"
      by (cases m rule: decimal_Cons) auto
    have "unat n < 2 ^ LENGTH(64)" by (rule unsigned_less)
    then have lt: "m div 10 < 2 ^ 64" by (simp add: m_def)
    have "0 < unat n" using False by (simp add: unat_gt_0)
    then have nd: "\<not> 2 ^ 64 dvd m"
      using \<open>unat n < 2 ^ LENGTH(64)\<close> by (simp add: m_def dvd_add_left_iff nat_dvd_not_less)
    have wm: "(word_of_nat m :: u64) = n" by (simp add: m_def)
    have wt: "wrap_u64_text n = decimal m" using False by (simp add: wrap_u64_text_def m_def)
    have "parse_number (wrap_u64_text n @ rest) = Inr (U64 n, rest)" if "value_end rest" for rest
    proof -
      have "parse_u64 (decimal m @ rest) = Inr (n, rest)"
        using parse_u64_decimal_wrap [of m rest] lt nd value_end_not_digit [OF that] wm by simp
      with dc c that show ?thesis
        by (simp add: wt parse_number_unsigned)
    qed
    with dc c show ?thesis by (simp add: wt)
  qed
  then show ?thesis by (simp add: u64_printer_ok_def)
qed

lemma read_u32_above_range:
  "read_u32 (U64 (ucast (w :: u32) + 2 ^ 32)) = Inl (ExpectedError ''Number'')"
proof -
  have w: "unat w < 2 ^ LENGTH(32)" by (rule unsigned_less)
  have "unat (ucast w + 2 ^ 32 :: u64) = unat w + 2 ^ 32"
    using w by (subst unat_add_lem [THEN iffD1]) simp_all
  then show ?thesis by (simp add: read_u32_def)
qed

lemma read_u32_negative:
  "sint i < 0 \<Longrightarrow> read_u32 (I64 i) = Inl (ExpectedError ''Number'')"
  by (simp add: read_u32_def)

lemma first_error_Cons:
  "first_error (x # xs) = (case x of Some e \<Rightarrow> Some e | None \<Rightarrow> first_error xs)"
  by (cases x) simp_all

lemma field_error_remove_key [simp]:
  "n \<noteq> k \<Longrightarrow> field_error (remove_key k obj) n dec = field_error obj n dec"
  by (simp add: field_error_def)

lemma read_struct_field_case:
  assumes "isl (dec Null)"
  shows "sbind (read_struct_field name dec obj) k =
    (case field_error obj name dec of
       Some e \<Rightarrow> Inl e
     | None \<Rightarrow> k (projr (dec (the (lookup_last obj name))), remove_key name obj))"
  using assms
  by (auto simp: read_struct_field_def field_error_def sbind_def split: option.splits sum.splits)

lemma field_readers_isl_Null:
  "isl (read_bool Null)" "isl (read_u32 Null)" "isl (read_str Null)"
  "isl (read_string_pair Null)" "isl (read_string_vec Null)"
  by (simp_all add: read_bool_def read_u32_def read_str_def read_string_pair_def read_string_vec_def)

section \<open>Properties of the codec\<close>

text \<open>C7. Round trip: for every snapshot, \<open>json::decode\<close> of what \<open>json::encode\<close>
  wrote is that snapshot, field for field; the derived codec of the eleven fields and
  the library's printer and parser agree on every string, integer and list.\<close>

theorem json_decode_encode_config: "json_decode_config (encode_config c) = Inr c"
  by (simp add: codec_roundtrip)

text \<open>C13. Decoding is all or nothing and field by field: an object decodes to the
  snapshot \<open>c\<close> exactly when, for every field, the object's last binding of the field's
  name decodes to the field's value in \<open>c\<close>. Other members are ignored.\<close>

theorem config_from_json_fields:
  "config_from_json (Object obj) = Inr c \<longleftrightarrow>
     field_decodes obj ''focus_follows_mouse'' read_bool (focus_follows_mouse c) \<and>
     field_decodes obj ''focus_border_color'' read_u32 (focus_border_color c) \<and>
     field_decodes obj ''border_color'' read_u32 (border_color c) \<and>
     field_decodes obj ''border_width'' read_u32 (border_width c) \<and>
     field_decodes obj ''spacing'' read_u32 (spacing c) \<and>
     field_decodes obj ''terminal'' read_string_pair (terminal c) \<and>
     field_decodes obj ''terminal_key'' read_str (terminal_key c) \<and>
     field_decodes obj ''logfile'' read_str (logfile c) \<and>
     field_decodes obj ''tags'' read_string_vec (tags c) \<and>
     field_decodes obj ''launcher'' read_str (launcher c) \<and>
     field_decodes obj ''launch_key'' read_str (launch_key c)"
  by (cases c) (auto simp: config_from_json_def read_struct_field_step field_readers_reject_Null)

text \<open>C14. A missing field: an object without a binding of one of the eleven field
  names does not decode; no partially filled snapshot is produced.\<close>

theorem decode_missing_field:
  assumes "n \<in> set config_field_names" and "lookup_last obj n = None"
  shows "\<exists>e. config_from_json (Object obj) = Inl e"
proof (cases "config_from_json (Object obj)")
  case (Inl e)
  then show ?thesis by blast
next
  case (Inr c)
  with assms show ?thesis
    by (cases c) (auto simp: config_from_json_def read_struct_field_step field_readers_reject_Null
        field_decodes_def config_field_names_def)
qed

text \<open>C15. A numeric field written as a JSON string is accepted: the object the
  encoder would write for \<open>c\<close>, with \<open>border_width\<close> given as the string of its
  digits, decodes to \<open>c\<close>. The library's \<open>read_u32\<close> parses strings, so this
  shape error is not reported.\<close>

theorem u32_field_accepts_string:
  "json_decode_config
     (encode_json (Object ((config_members c)[3 := (''border_width'', String (emit_u32 (border_width c)))]))) =
   Inr c"
proof -
  define J where "J = Object ((config_members c)[3 := (''border_width'', String (emit_u32 (border_width c)))])"
  have "canonical J" by (simp add: J_def config_members_def list_all_iff)
  then have "json_decode_config (encode_json J) = config_from_json J"
    by (simp add: json_decode_config_def json_from_str_encode)
  also have "config_from_json J = Inr c"
    by (simp add: J_def config_members_def config_from_json_def read_struct_field_def remove_key_def
        lookup_last_def read_bool_def read_str_def read_string_pair_def read_string_vec_def
        emit_u32_def read_u32_string_decimal)
  finally show ?thesis by (simp add: J_def)
qed

text \<open>C19. \<open>json::decode\<close> terminates on every text: its answer is that of one run of
  the parser, the same for every fuel larger than the text (so the fuel bound of the
  model never decides it), followed by the derived decoder or the trailing-characters
  check.\<close>

theorem json_decode_one_run:
  "\<exists>r. (\<forall>f > length s. parse f ParseValue (skip_ws s) = Some r) \<and>
     json_decode_config s =
       (case r of
          Inl e \<Rightarrow> Inl (ParseError e)
        | Inr (v, rest) \<Rightarrow> if skip_ws rest = [] then config_from_json v else Inl (ParseError TrailingCharacters))"
proof -
  obtain r where r: "parse (Suc (length s)) ParseValue (skip_ws s) = Some r"
    using json_from_str_fuel [of s] by blast
  have "\<forall>f > length s. parse f ParseValue (skip_ws s) = Some r"
    using parse_fuel_le [OF r] by (simp add: Suc_le_eq)
  moreover have "json_decode_config s =
       (case r of
          Inl e \<Rightarrow> Inl (ParseError e)
        | Inr (v, rest) \<Rightarrow> if skip_ws rest = [] then config_from_json v else Inl (ParseError TrailingCharacters))"
    using r by (auto simp: json_decode_config_def json_from_str_def split: sum.split)
  ultimately show ?thesis by blast
qed

text \<open>C20. The range check of a \<open>u32\<close> field: an integer at or above \<open>2^32\<close> (and
  below \<open>2^64\<close>) is refused, not truncated: the encoder's object with
  \<open>focus_border_color\<close> raised by \<open>2^32\<close> does not decode.\<close>

theorem u32_out_of_range_rejected:
  "json_decode_config
     (encode_json (Object ((config_members c)[1 :=
        (''focus_border_color'', U64 (ucast (focus_border_color c) + 2 ^ 32))]))) =
   Inl (ExpectedError ''Number'')"
proof -
  define J where "J = Object ((config_members c)[1 :=
        (''focus_border_color'', U64 (ucast (focus_border_color c) + 2 ^ 32))])"
  have "canonical J" by (simp add: J_def config_members_def list_all_iff)
  then have "json_decode_config (encode_json J) = config_from_json J"
    by (rule json_decode_config_encode_json)
  also have "config_from_json J = Inl (ExpectedError ''Number'')"
    by (simp add: J_def config_members_def config_from_json_def read_struct_field_def
        lookup_last_def remove_key_def read_bool_def read_u32_above_range [simplified])
  finally show ?thesis by (simp add: J_def)
qed

text \<open>C30. The sign check of a \<open>u32\<close> field: a negative integer is refused, not
  wrapped: the encoder's object with \<open>spacing\<close> set to a negative number does not
  decode.\<close>

theorem negative_u32_rejected:
  assumes "sint i < 0"
  shows "json_decode_config (encode_json (Object ((config_members c)[4 := (''spacing'', I64 i)]))) =
    Inl (ExpectedError ''Number'')"
proof -
  define J where "J = Object ((config_members c)[4 := (''spacing'', I64 i)])"
  have "canonical J" using assms by (simp add: J_def config_members_def list_all_iff)
  then have "json_decode_config (encode_json J) = config_from_json J"
    by (rule json_decode_config_encode_json)
  also have "config_from_json J = Inl (ExpectedError ''Number'')"
    using assms
    by (simp add: J_def config_members_def config_from_json_def read_struct_field_def
        lookup_last_def remove_key_def read_bool_def read_u32_negative)
  finally show ?thesis by (simp add: J_def)
qed

text \<open>C34. Blanks around the encoding: a file holding the encoding of \<open>c\<close> with blanks
  before and after it (the newline an editor adds at the end, an indentation) decodes
  to \<open>c\<close>.\<close>

theorem blanks_around_encoding:
  assumes "skip_ws a = []" and "skip_ws b = []"
  shows "json_decode_config (a @ encode_config c @ b) = Inr c"
  using json_decode_config_blank_prefix [OF assms(1)] json_decode_config_encode_append [OF assms(2)]
  by simp

text \<open>C21. Integers beyond \<open>u64\<close> wrap silently: a file in which every non-zero
  integer is written \<open>2^64\<close> larger than its field decodes to the same snapshot, since
  the parser's digit loop wraps and its overflow test only catches a wrap to zero.\<close>

theorem u32_fields_wrap:
  "json_decode_config (print_json wrap_u64_text (config_to_json c)) = Inr c"
  by (simp add: json_decode_config_def json_from_str_print [OF wrap_u64_text_ok]
      config_to_json_canonical config_from_json_to_json)

text \<open>C22. The encoder writes well-formed JSON of the struct's shape: the text of
  every snapshot parses to an object whose members are the eleven fields, each once, in
  declaration order.\<close>

theorem encode_config_well_formed:
  "\<exists>kvs. json_from_str (encode_config c) = Inr (Object kvs) \<and>
     map fst kvs = config_field_names \<and> distinct (map fst kvs)"
proof -
  have "json_from_str (encode_config c) = Inr (config_to_json c)"
    unfolding encode_config_tree by (rule json_from_str_encode [OF config_to_json_canonical])
  then show ?thesis
    by (simp add: config_to_json_def config_members_def config_field_names_def)
qed

text \<open>C25. Duplicate and unknown members: a member the struct does not have is
  ignored, and when a field is bound twice the later binding is the one decoded (the
  library's object is a \<open>TreeMap\<close> filled in text order).\<close>

theorem last_binding_wins:
  "json_decode_config
     (encode_json (Object (config_members c @ [(''comment'', Null), (''spacing'', U64 (ucast w))]))) =
   Inr (c\<lparr>spacing := w\<rparr>)"
proof -
  define J where "J = Object (config_members c @ [(''comment'', Null), (''spacing'', U64 (ucast w))])"
  have "canonical J" by (simp add: J_def config_members_def list_all_iff)
  then have "json_decode_config (encode_json J) = config_from_json J"
    by (rule json_decode_config_encode_json)
  also have "config_from_json J = Inr (c\<lparr>spacing := w\<rparr>)"
    by (simp add: J_def config_members_def config_from_json_def read_struct_field_def remove_key_def
        lookup_last_def read_bool_def read_str_def read_string_pair_def read_string_vec_def)
  finally show ?thesis by (simp add: J_def)
qed

text \<open>C26. The error of a failed decoding is that of the first field, in declaration
  order, that fails on its own: decoding a JSON value fails with \<open>e\<close> exactly when the
  reference \<open>config_decode_error\<close> gives \<open>e\<close>. Which field is reported does not depend
  on the members' order in the text.\<close>

theorem decode_error_first_field:
  "config_from_json j = Inl e \<longleftrightarrow> config_decode_error j = Some e"
proof (cases j)
  case (Object obj)
  show ?thesis
    unfolding Object config_from_json_def config_decode_error_def json.case
    by (simp add: read_struct_field_case field_readers_isl_Null first_error_Cons split: option.split)
qed (simp_all add: config_from_json_def config_decode_error_def)

theorem json_decode_one_run_witness:
  "\<exists>r. (\<forall>f > length ''x''. parse f ParseValue (skip_ws ''x'') = Some r) \<and>
     json_decode_config ''x'' = Inl (ParseError InvalidSyntax)"
proof -
  from json_decode_one_run [of "''x''"] obtain r where
    r: "\<forall>f > length ''x''. parse f ParseValue (skip_ws ''x'') = Some r" and
    d: "json_decode_config ''x'' =
       (case r of
          Inl e \<Rightarrow> Inl (ParseError e)
        | Inr (v, rest) \<Rightarrow> if skip_ws rest = [] then config_from_json v else Inl (ParseError TrailingCharacters))"
    by blast
  have "parse (Suc (Suc 0)) ParseValue (skip_ws ''x'') = Some r" by (rule r [rule_format]) simp
  then have "r = Inl InvalidSyntax"
    by (simp add: is_ws_def parse_scalar_def is_digit_def)
  with r d show ?thesis by auto
qed

theorem decode_missing_field_witness:
  "\<exists>e. config_from_json (Object [(''spacing'', U64 10)]) = Inl e"
  using decode_missing_field [of "''launcher''" "[(''spacing'', U64 10)]"]
  by (simp add: config_field_names_def)

theorem negative_u32_rejected_witness:
  "json_decode_config (encode_json (Object ((config_members (default_config ''/root''))[4 :=
     (''spacing'', I64 (- 1))]))) = Inl (ExpectedError ''Number'')"
  by (rule negative_u32_rejected) simp

theorem blanks_around_encoding_witness:
  "json_decode_config ([CHR 0x0A] @ encode_config (default_config ''/root'') @ [CHR 0x0A]) =
   Inr (default_config ''/root'')"
  by (rule blanks_around_encoding) (simp_all add: is_ws_def)

end
