(* ===== verification/Config_Lock.thy ===== *)
theory Config_Lock
  imports Config
begin

text \<open>
  \<open>struct ConfigLock\<close> (lines 36--60 of \<open>src/src/config.rs\<close>): one \<open>RWLock<Config>\<close>
  read by \<open>current\<close> (a shared guard, a field-by-field clone, the guard dropped) and
  replaced as a whole by \<open>Updatable::update\<close>, which assigns a fresh
  \<open>RWLock::new(new_conf)\<close> through \<open>&mut self\<close>. The lock is a record of its reader
  count and its data; the sequential API is \<open>current\<close> and \<open>update\<close>. The concurrent
  behaviour is a step relation over a list of reader threads: each call of
  \<open>current\<close> is split into its acquire, its eleven field copies and its release, and a
  writer step is the whole assignment of \<open>update\<close>, enabled only when no read guard is
  alive, which is what the borrow checker enforces for \<open>&mut self\<close>. The theory proves
  the invariant of that system and that it refines an atomic register.
\<close>

section \<open>The lock and the sequential API\<close>

text \<open>\<open>std::sync::RWLock<Config>\<close>: the number of live read guards and the data.\<close>

record rwlock =
  rw_readers :: nat
  rw_data :: config

definition rwlock_new :: "config \<Rightarrow> rwlock" where
  "rwlock_new c = \<lparr>rw_readers = 0, rw_data = c\<rparr>"

text \<open>\<open>RWLock::read\<close> hands out a guard; dropping the guard gives it back. Neither
  blocks here: no code path ever takes the write side of this lock.\<close>

definition rw_read_acquire :: "rwlock \<Rightarrow> rwlock" where
  "rw_read_acquire l = l\<lparr>rw_readers := Suc (rw_readers l)\<rparr>"

definition rw_read_release :: "rwlock \<Rightarrow> rwlock" where
  "rw_read_release l = l\<lparr>rw_readers := rw_readers l - 1\<rparr>"

record config_lock =
  conf :: rwlock

text \<open>\<open>ConfigLock::current\<close>: \<open>self.conf.read().deref().clone()\<close>, run without
  interruption: the guard is taken and dropped (the reader count is back where it was)
  and the clone of the data is the data (\<open>clone_prefix_full\<close>). The interleaved
  version is the step relation below.\<close>

definition current :: "config_lock \<Rightarrow> config" where
  "current l = rw_data (conf l)"

text \<open>\<open>Updatable::update\<close>: \<open>self.conf = RWLock::new(new_conf)\<close>.\<close>

definition update :: "config_lock \<Rightarrow> config \<Rightarrow> config_lock" where
  "update l new_conf = l\<lparr>conf := rwlock_new new_conf\<rparr>"

section \<open>Interleaved reader threads\<close>

text \<open>A reader thread is idle, inside \<open>current\<close> (with the number of fields copied so
  far, the partially built copy, and, as a ghost, the snapshot that was installed when
  it took its guard), or holding the copy \<open>current\<close> returned.\<close>

datatype reader_pc =
    Idle
  | Reading nat config config
  | Returned config

fun is_reading :: "reader_pc \<Rightarrow> bool" where
  "is_reading (Reading _ _ _) = True"
| "is_reading _ = False"

fun returned :: "reader_pc \<Rightarrow> config option" where
  "returned (Returned c) = Some c"
| "returned _ = None"

text \<open>The system: the shared \<open>ConfigLock\<close>, one program counter per reader thread,
  and, as a ghost, every snapshot installed so far (newest first).\<close>

record sys =
  cl :: config_lock
  pcs :: "reader_pc list"
  installed :: "config list"

definition init_sys :: "config \<Rightarrow> nat \<Rightarrow> sys" where
  "init_sys c n = \<lparr>cl = \<lparr>conf = rwlock_new c\<rparr>, pcs = replicate n Idle, installed = [c]\<rparr>"

definition no_guard_alive :: "sys \<Rightarrow> bool" where
  "no_guard_alive s \<longleftrightarrow> (\<forall>p \<in> set (pcs s). \<not> is_reading p)"

text \<open>One step of one thread. \<open>junk\<close> is whatever the clone's destination holds
  before its first field is written.\<close>

inductive lock_step :: "sys \<Rightarrow> sys \<Rightarrow> bool" where
  acquire: "i < length (pcs s) \<Longrightarrow> pcs s ! i = Idle \<Longrightarrow>
    lock_step s (s\<lparr>cl := (cl s)\<lparr>conf := rw_read_acquire (conf (cl s))\<rparr>,
                  pcs := (pcs s)[i := Reading 0 junk (rw_data (conf (cl s)))]\<rparr>)"
| copy: "i < length (pcs s) \<Longrightarrow> pcs s ! i = Reading k buf seen \<Longrightarrow>
    k < config_field_count \<Longrightarrow>
    lock_step s (s\<lparr>pcs := (pcs s)[i :=
                  Reading (Suc k) (copy_field k (rw_data (conf (cl s))) buf) seen]\<rparr>)"
| release: "i < length (pcs s) \<Longrightarrow> pcs s ! i = Reading k buf seen \<Longrightarrow>
    k = config_field_count \<Longrightarrow>
    lock_step s (s\<lparr>cl := (cl s)\<lparr>conf := rw_read_release (conf (cl s))\<rparr>,
                  pcs := (pcs s)[i := Returned buf]\<rparr>)"
| consume: "i < length (pcs s) \<Longrightarrow> pcs s ! i = Returned c \<Longrightarrow>
    lock_step s (s\<lparr>pcs := (pcs s)[i := Idle]\<rparr>)"
| replace: "no_guard_alive s \<Longrightarrow>
    lock_step s (s\<lparr>cl := update (cl s) c, installed := c # installed s\<rparr>)"

inductive_cases lock_step_elim: "lock_step s t"

inductive reachable :: "sys \<Rightarrow> bool" where
  start: "reachable (init_sys c n)"
| step: "reachable s \<Longrightarrow> lock_step s t \<Longrightarrow> reachable t"

section \<open>The invariant\<close>

text \<open>The first \<open>k\<close> fields of \<open>buf\<close> have been copied from \<open>src\<close>.\<close>

definition prefix_copied :: "nat \<Rightarrow> config \<Rightarrow> config \<Rightarrow> bool" where
  "prefix_copied k src buf \<longleftrightarrow> clone_prefix k src buf = buf"

fun reader_ok :: "config \<Rightarrow> config list \<Rightarrow> reader_pc \<Rightarrow> bool" where
  "reader_ok d hist Idle = True"
| "reader_ok d hist (Reading k buf seen) =
     (k \<le> config_field_count \<and> seen = d \<and> prefix_copied k d buf)"
| "reader_ok d hist (Returned c) = (c \<in> set hist)"

definition lock_inv :: "sys \<Rightarrow> bool" where
  "lock_inv s \<longleftrightarrow>
     rw_readers (conf (cl s)) = length (filter is_reading (pcs s)) \<and>
     installed s \<noteq> [] \<and> rw_data (conf (cl s)) = hd (installed s) \<and>
     (\<forall>p \<in> set (pcs s). reader_ok (rw_data (conf (cl s))) (installed s) p)"

section \<open>The atomic register the lock implements\<close>

text \<open>The contract of the spec: one slot holding a snapshot, a read that copies the
  slot into a caller-owned result in one step, and a replace that overwrites the slot
  in one step.\<close>

record reg =
  slot :: config
  results :: "config option list"

inductive reg_step :: "reg \<Rightarrow> reg \<Rightarrow> bool" where
  reg_read: "i < length (results r) \<Longrightarrow>
    reg_step r (r\<lparr>results := (results r)[i := Some (slot r)]\<rparr>)"
| reg_forget: "i < length (results r) \<Longrightarrow>
    reg_step r (r\<lparr>results := (results r)[i := None]\<rparr>)"
| reg_replace: "reg_step r (r\<lparr>slot := c\<rparr>)"

definition abs_reg :: "sys \<Rightarrow> reg" where
  "abs_reg s = \<lparr>slot = current (cl s), results = map returned (pcs s)\<rparr>"

section \<open>Invariant proofs\<close>

lemma prefix_copied_0 [simp]: "prefix_copied 0 src buf"
  by (simp add: prefix_copied_def)

lemma prefix_copied_step:
  "k < config_field_count \<Longrightarrow> prefix_copied k src buf \<Longrightarrow>
   prefix_copied (Suc k) src (copy_field k src buf)"
  unfolding prefix_copied_def by (simp add: clone_prefix_copy_field)

lemma prefix_copied_full: "prefix_copied config_field_count src buf \<Longrightarrow> buf = src"
  unfolding prefix_copied_def by (metis clone_prefix_full)

lemma set_list_update_all:
  "\<forall>p \<in> set xs. P p \<Longrightarrow> P y \<Longrightarrow> \<forall>p \<in> set (xs[i := y]). P p"
  using set_update_subset_insert by fastforce

lemma reader_ok_hist_mono:
  "reader_ok d hist p \<Longrightarrow> \<not> is_reading p \<Longrightarrow> reader_ok d' (c # hist) p"
  by (cases p) auto

lemmas lock_defs [lock_simps] = lock_inv_def rw_read_acquire_def rw_read_release_def
  rwlock_new_def update_def current_def no_guard_alive_def

lemma lock_inv_init: "lock_inv (init_sys c n)"
  by (simp add: lock_inv_def init_sys_def rwlock_new_def)

lemma lock_step_inv:
  assumes "lock_step s t" and "lock_inv s"
  shows "lock_inv t"
  using assms
proof (induction rule: lock_step.induct)
  case (acquire i s junk)
  let ?d = "rw_data (conf (cl s))" and ?p = "Reading 0 junk (rw_data (conf (cl s)))"
  from acquire.hyps have cnt:
    "length (filter is_reading ((pcs s)[i := ?p])) = Suc (length (filter is_reading (pcs s)))"
    using length_filter_list_update [of i "pcs s" is_reading] by simp
  from acquire.prems [unfolded lock_inv_def]
  have "\<forall>p \<in> set (pcs s). reader_ok ?d (installed s) p"
    by blast
  then have "\<forall>p \<in> set ((pcs s)[i := ?p]). reader_ok ?d (installed s) p"
    by (rule set_list_update_all) (simp add: config_field_count_def)
  with cnt acquire.prems show ?case by (simp add: lock_simps)
next
  case (copy i s k buf seen)
  let ?d = "rw_data (conf (cl s))" and ?p = "Reading (Suc k) (copy_field k (rw_data (conf (cl s))) buf) seen"
  from copy.hyps have cnt:
    "length (filter is_reading ((pcs s)[i := ?p])) = length (filter is_reading (pcs s))"
    using length_filter_list_update [of i "pcs s" is_reading ?p] by simp
  from copy.prems [unfolded lock_inv_def]
  have all: "\<forall>p \<in> set (pcs s). reader_ok ?d (installed s) p"
    by blast
  have "reader_ok ?d (installed s) (pcs s ! i)"
    using all nth_mem [OF copy.hyps(1)] by blast
  with copy.hyps have "reader_ok ?d (installed s) ?p"
    by (simp add: prefix_copied_step)
  with all have "\<forall>p \<in> set ((pcs s)[i := ?p]). reader_ok ?d (installed s) p"
    by (rule set_list_update_all)
  with cnt copy.prems show ?case by (simp add: lock_simps)
next
  case (release i s k buf seen)
  let ?d = "rw_data (conf (cl s))"
  from release.hyps have cnt:
    "length (filter is_reading ((pcs s)[i := Returned buf])) + 1 =
     length (filter is_reading (pcs s))"
    using length_filter_list_update [of i "pcs s" is_reading] by simp
  from release.prems [unfolded lock_inv_def]
  have all: "\<forall>p \<in> set (pcs s). reader_ok ?d (installed s) p"
    by blast
  with release.hyps have "prefix_copied config_field_count ?d buf"
    by (metis nth_mem reader_ok.simps(2))
  then have "buf = ?d" by (rule prefix_copied_full)
  with release.prems have "reader_ok ?d (installed s) (Returned buf)"
    by (simp add: lock_inv_def)
  with all have "\<forall>p \<in> set ((pcs s)[i := Returned buf]). reader_ok ?d (installed s) p"
    by (rule set_list_update_all)
  with cnt release.prems show ?case by (simp add: lock_simps)
next
  case (consume i s c)
  let ?d = "rw_data (conf (cl s))"
  from consume.hyps have cnt:
    "length (filter is_reading ((pcs s)[i := Idle])) = length (filter is_reading (pcs s))"
    using length_filter_list_update [of i "pcs s" is_reading] by simp
  from consume.prems [unfolded lock_inv_def]
  have "\<forall>p \<in> set (pcs s). reader_ok ?d (installed s) p"
    by blast
  then have "\<forall>p \<in> set ((pcs s)[i := Idle]). reader_ok ?d (installed s) p"
    by (rule set_list_update_all) simp
  with cnt consume.prems show ?case by (simp add: lock_simps)
next
  case (replace s c)
  then have none: "\<forall>p \<in> set (pcs s). \<not> is_reading p"
    by (simp add: no_guard_alive_def)
  then have "filter is_reading (pcs s) = []"
    by (simp add: filter_empty_conv)
  moreover from replace.prems none
  have "\<forall>p \<in> set (pcs s). reader_ok c (c # installed s) p"
    by (auto simp: lock_inv_def intro: reader_ok_hist_mono)
  ultimately show ?case by (simp add: lock_simps)
qed

lemma reachable_lock_inv: "reachable s \<Longrightarrow> lock_inv s"
proof (induction rule: reachable.induct)
  case (start c n)
  then show ?case by (rule lock_inv_init)
next
  case (step s t)
  then show ?case by (blast intro: lock_step_inv)
qed

section \<open>Runs of the reader threads\<close>

lemma reachable_star: "lock_step\<^sup>*\<^sup>* s t \<Longrightarrow> reachable s \<Longrightarrow> reachable t"
  by (induction rule: rtranclp_induct) (auto intro: reachable.step)

lemma rw_read_release_acquire [simp]: "rw_read_release (rw_read_acquire l) = l"
  by (simp add: rw_read_acquire_def rw_read_release_def)

text \<open>Thread \<open>i\<close> copies fields \<open>j\<close> to \<open>m - 1\<close> without interruption.\<close>

lemma reader_copies:
  assumes "i < length (pcs s)" and "pcs s ! i = Reading j buf seen"
    and "prefix_copied j (rw_data (conf (cl s))) buf" and "j \<le> m" and "m \<le> config_field_count"
  shows "lock_step\<^sup>*\<^sup>* s (s\<lparr>pcs := (pcs s)[i :=
           Reading m (clone_prefix m (rw_data (conf (cl s))) buf) seen]\<rparr>)"
  using assms(4,5)
proof (induction m)
  case 0
  then have "j = 0" by simp
  with assms(2) have "(pcs s)[i := Reading 0 (clone_prefix 0 (rw_data (conf (cl s))) buf) seen] = pcs s"
    by (metis clone_prefix.simps(1) list_update_id)
  then show ?case by simp
next
  case (Suc m)
  let ?d = "rw_data (conf (cl s))"
  show ?case
  proof (cases "j \<le> m")
    case True
    let ?sm = "s\<lparr>pcs := (pcs s)[i := Reading m (clone_prefix m ?d buf) seen]\<rparr>"
    from True Suc.prems have run: "lock_step\<^sup>*\<^sup>* s ?sm" by (intro Suc.IH) simp_all
    have "lock_step ?sm (?sm\<lparr>pcs := (pcs ?sm)[i :=
        Reading (Suc m) (copy_field m (rw_data (conf (cl ?sm))) (clone_prefix m ?d buf)) seen]\<rparr>)"
      by (rule lock_step.copy) (use Suc.prems assms(1) in simp_all)
    then have "lock_step ?sm
        (s\<lparr>pcs := (pcs s)[i := Reading (Suc m) (clone_prefix (Suc m) ?d buf) seen]\<rparr>)"
      by simp
    with run show ?thesis by (rule rtranclp.rtrancl_into_rtrancl)
  next
    case False
    with Suc.prems have j: "j = Suc m" by simp
    with assms(3) have "clone_prefix (Suc m) (rw_data (conf (cl s))) buf = buf"
      by (simp add: prefix_copied_def)
    with j assms(2)
    have "(pcs s)[i := Reading (Suc m) (clone_prefix (Suc m) (rw_data (conf (cl s))) buf) seen] = pcs s"
      by (metis list_update_id)
    then show ?thesis by simp
  qed
qed

text \<open>A thread inside \<open>current\<close> finishes it on its own: it copies the remaining
  fields, drops its guard and holds the snapshot it saw when it took the guard.\<close>

lemma finish_read:
  assumes "reachable s" and "i < length (pcs s)" and "pcs s ! i = Reading k buf seen"
  shows "lock_step\<^sup>*\<^sup>* s (s\<lparr>cl := (cl s)\<lparr>conf := rw_read_release (conf (cl s))\<rparr>,
                                pcs := (pcs s)[i := Returned seen]\<rparr>)"
proof -
  let ?d = "rw_data (conf (cl s))"
  from assms(1) have inv: "lock_inv s" by (rule reachable_lock_inv)
  with assms(2,3) have ok: "reader_ok ?d (installed s) (Reading k buf seen)"
    unfolding lock_inv_def by (metis nth_mem)
  let ?s11 = "s\<lparr>pcs := (pcs s)[i := Reading config_field_count (clone_prefix config_field_count ?d buf) seen]\<rparr>"
  from ok have pc: "prefix_copied k ?d buf" and kle: "k \<le> config_field_count"
    by simp_all
  from reader_copies [OF assms(2,3) pc kle order_refl]
  have run: "lock_step\<^sup>*\<^sup>* s ?s11" .
  from assms(2) have "lock_step ?s11
      (?s11\<lparr>cl := (cl ?s11)\<lparr>conf := rw_read_release (conf (cl ?s11))\<rparr>,
             pcs := (pcs ?s11)[i := Returned (clone_prefix config_field_count ?d buf)]\<rparr>)"
    by (intro lock_step.release [where i = i]) simp_all
  moreover from ok have "clone_prefix config_field_count ?d buf = seen"
    by (simp add: clone_prefix_full)
  ultimately have "lock_step ?s11 (s\<lparr>cl := (cl s)\<lparr>conf := rw_read_release (conf (cl s))\<rparr>,
                                    pcs := (pcs s)[i := Returned seen]\<rparr>)"
    by simp
  with run show ?thesis by (rule rtranclp.rtrancl_into_rtrancl)
qed

text \<open>An uninterrupted call of \<open>current\<close> by an idle thread: the interleaved model
  returns exactly the sequential \<open>current\<close>, and leaves the lock as it found it.\<close>

lemma full_read:
  assumes "reachable s" and "i < length (pcs s)" and "pcs s ! i = Idle"
  shows "lock_step\<^sup>*\<^sup>* s (s\<lparr>pcs := (pcs s)[i := Returned (current (cl s))]\<rparr>)"
proof -
  let ?d = "rw_data (conf (cl s))"
  let ?s1 = "s\<lparr>cl := (cl s)\<lparr>conf := rw_read_acquire (conf (cl s))\<rparr>,
               pcs := (pcs s)[i := Reading 0 ?d ?d]\<rparr>"
  from assms(2,3) have st: "lock_step s ?s1"
    by (rule lock_step.acquire)
  with assms(1) have r1: "reachable ?s1" by (rule reachable.step)
  from assms(2) have i1: "i < length (pcs ?s1)" and p1: "pcs ?s1 ! i = Reading 0 ?d ?d"
    by simp_all
  from finish_read [OF r1 i1 p1]
  have "lock_step\<^sup>*\<^sup>* ?s1 (?s1\<lparr>cl := (cl ?s1)\<lparr>conf := rw_read_release (conf (cl ?s1))\<rparr>,
                                    pcs := (pcs ?s1)[i := Returned ?d]\<rparr>)" .
  then have "lock_step\<^sup>*\<^sup>* ?s1 (s\<lparr>pcs := (pcs s)[i := Returned (current (cl s))]\<rparr>)"
    by (simp add: current_def)
  with st show ?thesis by (rule converse_rtranclp_into_rtranclp)
qed

text \<open>A reachable state: one thread has taken its guard on the initial snapshot
  \<open>c\<close> and copied its first \<open>k\<close> fields into a destination that held \<open>c\<close>.\<close>

lemma one_reader_reachable:
  assumes "k \<le> config_field_count"
  shows "reachable \<lparr>cl = \<lparr>conf = \<lparr>rw_readers = 1, rw_data = c\<rparr>\<rparr>,
                    pcs = [Reading k c c], installed = [c]\<rparr>"
proof -
  let ?s0 = "init_sys c 1"
  let ?s1 = "\<lparr>cl = \<lparr>conf = \<lparr>rw_readers = 1, rw_data = c\<rparr>\<rparr>, pcs = [Reading 0 c c], installed = [c]\<rparr>"
  have "lock_step ?s0 (?s0\<lparr>cl := (cl ?s0)\<lparr>conf := rw_read_acquire (conf (cl ?s0))\<rparr>,
                        pcs := (pcs ?s0)[0 := Reading 0 c (rw_data (conf (cl ?s0)))]\<rparr>)"
    by (rule lock_step.acquire) (simp_all add: init_sys_def)
  then have "lock_step ?s0 ?s1"
    by (simp add: init_sys_def rwlock_new_def rw_read_acquire_def)
  with reachable.start have r1: "reachable ?s1" by (rule reachable.step)
  have "lock_step\<^sup>*\<^sup>* ?s1 (?s1\<lparr>pcs := (pcs ?s1)[0 :=
           Reading k (clone_prefix k (rw_data (conf (cl ?s1))) c) c]\<rparr>)"
    using assms by (intro reader_copies [where j = 0]) (simp_all add: prefix_copied_def)
  then have "lock_step\<^sup>*\<^sup>* ?s1 \<lparr>cl = \<lparr>conf = \<lparr>rw_readers = 1, rw_data = c\<rparr>\<rparr>,
                                 pcs = [Reading k c c], installed = [c]\<rparr>"
    by simp
  then show ?thesis using r1 by (rule reachable_star)
qed

section \<open>Properties of the lock\<close>

text \<open>Runs from the initial state in which no snapshot is installed: the store keeps
  its initial snapshot and every read returns it.\<close>

lemma no_replace_reads:
  assumes "(\<lambda>s t. lock_step s t \<and> installed t = installed s)\<^sup>*\<^sup>* (init_sys S n) s"
  shows "current (cl s) = S \<and> (\<forall>c. Returned c \<in> set (pcs s) \<longrightarrow> c = S)"
proof -
  from assms have "reachable s \<and> installed s = [S]"
  proof (induction rule: rtranclp_induct)
    case base
    show ?case using reachable.start [of S n] by (simp add: init_sys_def)
  next
    case (step t u)
    then show ?case using reachable.step by auto
  qed
  then have "lock_inv s" and inst: "installed s = [S]" by (auto intro: reachable_lock_inv)
  then show ?thesis by (fastforce simp: lock_inv_def current_def)
qed

lemma reading_reader_ok:
  assumes "reachable s" and "i < length (pcs s)" and "pcs s ! i = Reading k buf seen"
  shows "k \<le> config_field_count \<and> seen = current (cl s) \<and>
         prefix_copied k (current (cl s)) buf"
proof -
  from assms(1) have "lock_inv s" by (rule reachable_lock_inv)
  with assms(2,3) have "reader_ok (rw_data (conf (cl s))) (installed s) (Reading k buf seen)"
    unfolding lock_inv_def by (metis nth_mem)
  then show ?thesis by (simp add: current_def)
qed

text \<open>Runs in which no snapshot is installed: a read that completes returns the
  installed snapshot, so when every copy held at the start is that snapshot, every
  copy held later is.\<close>

lemma step_new_returned:
  assumes "reachable v" and "lock_step v u" and "installed u = installed v"
    and "Returned c \<in> set (pcs u)" and "Returned c \<notin> set (pcs v)"
  shows "c = current (cl v)"
  using assms(2)
proof (cases rule: lock_step.cases)
  case (acquire i junk)
  with assms(4,5) show ?thesis using set_update_subset_insert by fastforce
next
  case (copy i k buf seen)
  with assms(4,5) show ?thesis using set_update_subset_insert by fastforce
next
  case (release i k buf seen)
  with assms(4,5) have "c = buf" using set_update_subset_insert by fastforce
  moreover from reading_reader_ok [OF assms(1) release(2,3)] release(4) have "buf = current (cl v)"
    by (metis prefix_copied_full)
  ultimately show ?thesis by simp
next
  case (consume i c')
  with assms(4,5) show ?thesis using set_update_subset_insert by fastforce
next
  case (replace c')
  with assms(3) show ?thesis by simp
qed

lemma stable_reads:
  assumes "(\<lambda>s t. lock_step s t \<and> installed t = installed s)\<^sup>*\<^sup>* t u"
    and "reachable t" and "\<forall>c. Returned c \<in> set (pcs t) \<longrightarrow> c = current (cl t)"
  shows "reachable u \<and> installed u = installed t \<and> current (cl u) = current (cl t) \<and>
    (\<forall>c. Returned c \<in> set (pcs u) \<longrightarrow> c = current (cl t))"
  using assms(1)
proof (induction rule: rtranclp_induct)
  case base
  with assms(2,3) show ?case by simp
next
  case (step v u)
  then have rv: "reachable v" and su: "lock_step v u" and iu: "installed u = installed v"
    and cv: "current (cl v) = current (cl t)" by auto
  have ru: "reachable u" using rv su by (rule reachable.step)
  from reachable_lock_inv [OF rv] reachable_lock_inv [OF ru] iu
  have "current (cl u) = current (cl v)" by (simp add: lock_inv_def current_def)
  moreover have "\<forall>c. Returned c \<in> set (pcs u) \<longrightarrow> c = current (cl t)"
    using step.IH step_new_returned [OF rv su iu] cv by blast
  ultimately show ?case using ru iu step.IH by simp
qed

text \<open>C1. Linearizability: the interleaved \<open>ConfigLock\<close> refines an atomic register.
  Every step from a reachable state either leaves the abstract register (the installed
  snapshot and the copies the threads hold) unchanged, or is one atomic read of the
  whole snapshot into a thread's result, one discarding of a result, or one atomic
  replacement of the whole snapshot.\<close>

theorem lock_refines_register:
  assumes "reachable s" and "lock_step s t"
  shows "abs_reg t = abs_reg s \<or> reg_step (abs_reg s) (abs_reg t)"
  using assms(2)
proof (cases rule: lock_step.cases)
  case (acquire i junk)
  then show ?thesis
    by (simp add: abs_reg_def current_def rw_read_acquire_def map_list_update_same)
next
  case (copy i k buf seen)
  then show ?thesis by (simp add: abs_reg_def map_list_update_same)
next
  case (release i k buf seen)
  with reading_reader_ok [OF assms(1)] have "buf = current (cl s)"
    by (metis prefix_copied_full)
  with release have "abs_reg t = (abs_reg s)\<lparr>results := (results (abs_reg s))[i := Some (slot (abs_reg s))]\<rparr>"
    by (simp add: abs_reg_def current_def rw_read_release_def map_update)
  moreover from release have "i < length (results (abs_reg s))"
    by (simp add: abs_reg_def)
  ultimately show ?thesis by (metis reg_step.reg_read)
next
  case (consume i c)
  then have "abs_reg t = (abs_reg s)\<lparr>results := (results (abs_reg s))[i := None]\<rparr>"
    by (simp add: abs_reg_def map_update)
  moreover from consume have "i < length (results (abs_reg s))"
    by (simp add: abs_reg_def)
  ultimately show ?thesis by (metis reg_step.reg_forget)
next
  case (replace c)
  then have "abs_reg t = (abs_reg s)\<lparr>slot := c\<rparr>"
    by (simp add: abs_reg_def current_def update_def rwlock_new_def)
  then show ?thesis by (metis reg_step.reg_replace)
qed

text \<open>C2. No torn read: every copy a thread obtained from \<open>current\<close> is one of the
  snapshots that were installed as a whole (the initial one or the argument of an
  \<open>update\<close>), never a mixture of the fields of two snapshots.\<close>

theorem returned_snapshot_installed:
  assumes "reachable s" and "Returned c \<in> set (pcs s)"
  shows "c \<in> set (installed s)"
proof -
  from assms(1) have "lock_inv s" by (rule reachable_lock_inv)
  then have "reader_ok (rw_data (conf (cl s))) (installed s) (Returned c)"
    using assms(2) unfolding lock_inv_def by blast
  then show ?thesis by simp
qed

text \<open>C3. A call of \<open>current\<close> returns the snapshot that was installed when it took
  its read guard, and that snapshot is still the installed one when it drops the guard:
  no \<open>update\<close> takes effect during a read, so no read returns a stale snapshot once an
  \<open>update\<close> has completed before it started.\<close>

theorem read_returns_snapshot_at_acquire:
  assumes "reachable s" and "lock_step s t" and "i < length (pcs s)"
    and "pcs s ! i = Reading k buf seen" and "pcs t ! i = Returned c"
  shows "c = seen \<and> seen = current (cl s) \<and> current (cl t) = current (cl s)"
  using assms(2)
proof (cases rule: lock_step.cases)
  case (release j k' buf' seen')
  show ?thesis
  proof (cases "j = i")
    case True
    with release assms(4,5) have "c = buf'" and "buf' = buf" and "seen' = seen"
      and "k = config_field_count" by auto
    with reading_reader_ok [OF assms(1,3,4)] release show ?thesis
      by (simp add: current_def rw_read_release_def prefix_copied_full)
  next
    case False
    with release assms(3,4,5) show ?thesis by simp
  qed
next
  case (replace c')
  with assms(3,4) have False by (metis is_reading.simps(1) nth_mem no_guard_alive_def)
  then show ?thesis ..
qed (use assms(3,4,5) in \<open>auto simp: nth_list_update split: if_splits\<close>)

text \<open>C4. Mutual exclusion of the writer: the installed snapshot changes only in a step
  taken when no read guard is alive (the reader count of the \<open>RWLock\<close> is zero and no
  thread is inside \<open>current\<close>), as the \<open>&mut self\<close> of \<open>update\<close> demands.\<close>

theorem slot_changes_only_without_guards:
  assumes "reachable s" and "lock_step s t" and "current (cl t) \<noteq> current (cl s)"
  shows "rw_readers (conf (cl s)) = 0 \<and> no_guard_alive s"
  using assms(2)
proof (cases rule: lock_step.cases)
  case (replace c)
  from assms(1) have "lock_inv s" by (rule reachable_lock_inv)
  moreover from replace have "filter is_reading (pcs s) = []"
    by (simp add: no_guard_alive_def filter_empty_conv)
  ultimately show ?thesis using replace by (simp add: lock_inv_def)
qed (use assms(3) in \<open>simp_all add: current_def rw_read_acquire_def rw_read_release_def\<close>)

text \<open>C5. A call of \<open>current\<close> that has taken its guard always completes, whatever the
  other threads do meanwhile: running alone it copies its remaining fields, drops the
  guard and returns the snapshot it saw, and the installed snapshot is unchanged.\<close>

theorem inflight_read_completes:
  assumes "reachable s" and "i < length (pcs s)" and "pcs s ! i = Reading k buf seen"
  shows "\<exists>t. lock_step\<^sup>*\<^sup>* s t \<and> pcs t ! i = Returned seen \<and> current (cl t) = current (cl s)"
proof -
  let ?t = "s\<lparr>cl := (cl s)\<lparr>conf := rw_read_release (conf (cl s))\<rparr>,
              pcs := (pcs s)[i := Returned seen]\<rparr>"
  from finish_read [OF assms] have "lock_step\<^sup>*\<^sup>* s ?t" .
  moreover from assms(2) have "pcs ?t ! i = Returned seen" by simp
  moreover have "current (cl ?t) = current (cl s)"
    by (simp add: current_def rw_read_release_def)
  ultimately show ?thesis by blast
qed

text \<open>C6. The writer is never locked out for good: from every reachable state the
  threads inside \<open>current\<close> can all finish, reaching a state with no live guard, where
  \<open>update\<close> is enabled, without the installed snapshot changing on the way.\<close>

theorem guards_drain:
  assumes "reachable s"
  shows "\<exists>t. lock_step\<^sup>*\<^sup>* s t \<and> no_guard_alive t \<and> rw_readers (conf (cl t)) = 0 \<and>
             current (cl t) = current (cl s)"
proof -
  have "\<And>s. reachable s \<Longrightarrow> length (filter is_reading (pcs s)) = n \<Longrightarrow>
        \<exists>t. lock_step\<^sup>*\<^sup>* s t \<and> no_guard_alive t \<and> rw_readers (conf (cl t)) = 0 \<and>
             current (cl t) = current (cl s)" for n
  proof (induction n)
    case (0 s)
    then have "no_guard_alive s"
      by (simp add: no_guard_alive_def filter_empty_conv)
    moreover from "0.prems" have "rw_readers (conf (cl s)) = 0"
      using reachable_lock_inv [OF "0.prems"(1)] by (simp add: lock_inv_def)
    ultimately show ?case by blast
  next
    case (Suc n s)
    then obtain p where "p \<in> set (pcs s)" and "is_reading p"
      by (metis filter_empty_conv length_0_conv nat.distinct(1))
    then obtain i k buf seen where i: "i < length (pcs s)" and pi: "pcs s ! i = Reading k buf seen"
      by (metis in_set_conv_nth is_reading.elims(2))
    let ?s' = "s\<lparr>cl := (cl s)\<lparr>conf := rw_read_release (conf (cl s))\<rparr>,
                 pcs := (pcs s)[i := Returned seen]\<rparr>"
    from finish_read [OF Suc.prems(1) i pi] have run: "lock_step\<^sup>*\<^sup>* s ?s'" .
    from run Suc.prems(1) have "reachable ?s'" by (rule reachable_star)
    moreover from i pi Suc.prems(2) have "length (filter is_reading (pcs ?s')) = n"
      using length_filter_list_update [of i "pcs s" is_reading "Returned seen"] by simp
    ultimately obtain t where "lock_step\<^sup>*\<^sup>* ?s' t" and "no_guard_alive t"
      and "rw_readers (conf (cl t)) = 0" and "current (cl t) = current (cl ?s')"
      using Suc.IH by blast
    with run show ?case
      by (auto simp: current_def rw_read_release_def intro: rtranclp_trans)
  qed
  with assms show ?thesis by blast
qed

text \<open>C23. Equivalence with the sequential reader: from every reachable state, an idle
  thread running \<open>current\<close> without interruption ends holding exactly
  \<open>current (cl s)\<close>, the sequential definition, with the lock as it was (the guard
  taken and given back), and the abstract register has made exactly one atomic read.\<close>

theorem current_equiv_sequential:
  assumes "reachable s" and "i < length (pcs s)" and "pcs s ! i = Idle"
  shows "\<exists>t. lock_step\<^sup>*\<^sup>* s t \<and> cl t = cl s \<and> pcs t ! i = Returned (current (cl s)) \<and>
    abs_reg t = (abs_reg s)\<lparr>results := (results (abs_reg s))[i := Some (current (cl s))]\<rparr>"
proof -
  let ?t = "s\<lparr>pcs := (pcs s)[i := Returned (current (cl s))]\<rparr>"
  from full_read [OF assms] have "lock_step\<^sup>*\<^sup>* s ?t" .
  moreover have "abs_reg ?t = (abs_reg s)\<lparr>results := (results (abs_reg s))[i := Some (current (cl s))]\<rparr>"
    by (simp add: abs_reg_def map_update)
  ultimately show ?thesis using assms(2) by auto
qed

text \<open>C24. The reader count of the \<open>RWLock\<close> is exact in every reachable state: it is
  the number of threads inside \<open>current\<close>, so it never exceeds the number of threads
  and drops to zero exactly when no guard is alive.\<close>

theorem reader_count_exact:
  assumes "reachable s"
  shows "rw_readers (conf (cl s)) = length (filter is_reading (pcs s)) \<and>
    rw_readers (conf (cl s)) \<le> length (pcs s)"
proof -
  from assms have "lock_inv s" by (rule reachable_lock_inv)
  then show ?thesis by (simp add: lock_inv_def)
qed

section \<open>Witnesses\<close>

theorem lock_refines_register_witness:
  "reachable (init_sys (default_config ''/root'') 1) \<and>
   lock_step (init_sys (default_config ''/root'') 1)
     \<lparr>cl = \<lparr>conf = \<lparr>rw_readers = 0, rw_data = (default_config ''/root'')\<lparr>spacing := 4\<rparr>\<rparr>\<rparr>,
      pcs = [Idle], installed = [(default_config ''/root'')\<lparr>spacing := 4\<rparr>, default_config ''/root'']\<rparr> \<and>
   reg_step (abs_reg (init_sys (default_config ''/root'') 1))
     (abs_reg \<lparr>cl = \<lparr>conf = \<lparr>rw_readers = 0, rw_data = (default_config ''/root'')\<lparr>spacing := 4\<rparr>\<rparr>\<rparr>,
      pcs = [Idle], installed = [(default_config ''/root'')\<lparr>spacing := 4\<rparr>, default_config ''/root'']\<rparr>)"
proof -
  let ?s = "init_sys (default_config ''/root'') 1"
  let ?c = "(default_config ''/root'')\<lparr>spacing := 4\<rparr>"
  let ?t = "\<lparr>cl = \<lparr>conf = \<lparr>rw_readers = 0, rw_data = ?c\<rparr>\<rparr>, pcs = [Idle],
             installed = [?c, default_config ''/root'']\<rparr>"
  have r: "reachable ?s" by (rule reachable.start)
  have "lock_step ?s (?s\<lparr>cl := update (cl ?s) ?c, installed := ?c # installed ?s\<rparr>)"
    by (rule lock_step.replace) (simp add: no_guard_alive_def init_sys_def)
  then have st: "lock_step ?s ?t"
    by (simp add: init_sys_def update_def rwlock_new_def)
  have "abs_reg ?t \<noteq> abs_reg ?s"
    by (simp add: abs_reg_def init_sys_def current_def rwlock_new_def default_config_def)
  with lock_refines_register [OF r st] r st show ?thesis by simp
qed

theorem returned_snapshot_installed_witness:
  "reachable \<lparr>cl = \<lparr>conf = \<lparr>rw_readers = 0, rw_data = default_config ''/root''\<rparr>\<rparr>,
              pcs = [Returned (default_config ''/root'')], installed = [default_config ''/root'']\<rparr> \<and>
   Returned (default_config ''/root'') \<in> set [Returned (default_config ''/root'')] \<and>
   default_config ''/root'' \<in> set [default_config ''/root'']"
proof -
  let ?d = "default_config ''/root''"
  let ?s = "\<lparr>cl = \<lparr>conf = \<lparr>rw_readers = 0, rw_data = ?d\<rparr>\<rparr>, pcs = [Returned ?d], installed = [?d]\<rparr>"
  have r0: "reachable (init_sys ?d 1)" by (rule reachable.start)
  have "lock_step\<^sup>*\<^sup>* (init_sys ?d 1)
          ((init_sys ?d 1)\<lparr>pcs := (pcs (init_sys ?d 1))[0 := Returned (current (cl (init_sys ?d 1)))]\<rparr>)"
    by (rule full_read [OF r0]) (simp_all add: init_sys_def)
  then have "lock_step\<^sup>*\<^sup>* (init_sys ?d 1) ?s"
    by (simp add: init_sys_def current_def rwlock_new_def)
  from this r0 have r: "reachable ?s" by (rule reachable_star)
  have m: "Returned ?d \<in> set (pcs ?s)" by simp
  from returned_snapshot_installed [OF r m] r show ?thesis by simp
qed

theorem read_returns_snapshot_at_acquire_witness:
  "reachable \<lparr>cl = \<lparr>conf = \<lparr>rw_readers = 1, rw_data = default_config ''/root''\<rparr>\<rparr>,
      pcs = [Reading config_field_count (default_config ''/root'') (default_config ''/root'')],
      installed = [default_config ''/root'']\<rparr> \<and>
   lock_step
     \<lparr>cl = \<lparr>conf = \<lparr>rw_readers = 1, rw_data = default_config ''/root''\<rparr>\<rparr>,
      pcs = [Reading config_field_count (default_config ''/root'') (default_config ''/root'')],
      installed = [default_config ''/root'']\<rparr>
     \<lparr>cl = \<lparr>conf = \<lparr>rw_readers = 0, rw_data = default_config ''/root''\<rparr>\<rparr>,
      pcs = [Returned (default_config ''/root'')], installed = [default_config ''/root'']\<rparr> \<and>
   default_config ''/root'' = current \<lparr>conf = \<lparr>rw_readers = 0, rw_data = default_config ''/root''\<rparr>\<rparr>"
proof -
  let ?d = "default_config ''/root''"
  let ?s = "\<lparr>cl = \<lparr>conf = \<lparr>rw_readers = 1, rw_data = ?d\<rparr>\<rparr>,
             pcs = [Reading config_field_count ?d ?d], installed = [?d]\<rparr>"
  let ?t = "\<lparr>cl = \<lparr>conf = \<lparr>rw_readers = 0, rw_data = ?d\<rparr>\<rparr>, pcs = [Returned ?d], installed = [?d]\<rparr>"
  have r: "reachable ?s" by (rule one_reader_reachable) simp
  have "lock_step ?s (?s\<lparr>cl := (cl ?s)\<lparr>conf := rw_read_release (conf (cl ?s))\<rparr>,
                       pcs := (pcs ?s)[0 := Returned ?d]\<rparr>)"
    by (rule lock_step.release) simp_all
  then have st: "lock_step ?s ?t" by (simp add: rw_read_release_def)
  have i: "0 < length (pcs ?s)" and p: "pcs ?s ! 0 = Reading config_field_count ?d ?d"
    and q: "pcs ?t ! 0 = Returned ?d" by simp_all
  from read_returns_snapshot_at_acquire [OF r st i p q] r st show ?thesis by simp
qed

theorem slot_changes_only_without_guards_witness:
  "reachable (init_sys (default_config ''/root'') 2) \<and>
   lock_step (init_sys (default_config ''/root'') 2)
     \<lparr>cl = \<lparr>conf = \<lparr>rw_readers = 0, rw_data = (default_config ''/root'')\<lparr>border_width := 3\<rparr>\<rparr>\<rparr>,
      pcs = [Idle, Idle], installed = [(default_config ''/root'')\<lparr>border_width := 3\<rparr>, default_config ''/root'']\<rparr> \<and>
   rw_readers (conf (cl (init_sys (default_config ''/root'') 2))) = 0 \<and>
   no_guard_alive (init_sys (default_config ''/root'') 2)"
proof -
  let ?s = "init_sys (default_config ''/root'') 2"
  let ?c = "(default_config ''/root'')\<lparr>border_width := 3\<rparr>"
  let ?t = "\<lparr>cl = \<lparr>conf = \<lparr>rw_readers = 0, rw_data = ?c\<rparr>\<rparr>, pcs = [Idle, Idle],
             installed = [?c, default_config ''/root'']\<rparr>"
  have r: "reachable ?s" by (rule reachable.start)
  have "lock_step ?s (?s\<lparr>cl := update (cl ?s) ?c, installed := ?c # installed ?s\<rparr>)"
    by (rule lock_step.replace) (simp add: no_guard_alive_def init_sys_def)
  then have st: "lock_step ?s ?t"
    by (simp add: init_sys_def update_def rwlock_new_def numeral_2_eq_2)
  have ne: "current (cl ?t) \<noteq> current (cl ?s)"
    by (simp add: init_sys_def current_def rwlock_new_def default_config_def)
  from slot_changes_only_without_guards [OF r st ne] r st show ?thesis by simp
qed

theorem inflight_read_completes_witness:
  "reachable \<lparr>cl = \<lparr>conf = \<lparr>rw_readers = 1, rw_data = default_config ''/root''\<rparr>\<rparr>,
      pcs = [Reading 0 (default_config ''/root'') (default_config ''/root'')],
      installed = [default_config ''/root'']\<rparr> \<and>
   (\<exists>t. lock_step\<^sup>*\<^sup>* \<lparr>cl = \<lparr>conf = \<lparr>rw_readers = 1, rw_data = default_config ''/root''\<rparr>\<rparr>,
      pcs = [Reading 0 (default_config ''/root'') (default_config ''/root'')],
      installed = [default_config ''/root'']\<rparr> t \<and>
        pcs t ! 0 = Returned (default_config ''/root'') \<and>
        current (cl t) = default_config ''/root'')"
proof -
  let ?d = "default_config ''/root''"
  let ?s = "\<lparr>cl = \<lparr>conf = \<lparr>rw_readers = 1, rw_data = ?d\<rparr>\<rparr>, pcs = [Reading 0 ?d ?d], installed = [?d]\<rparr>"
  have r: "reachable ?s" by (rule one_reader_reachable) simp
  have i: "0 < length (pcs ?s)" and p: "pcs ?s ! 0 = Reading 0 ?d ?d" by simp_all
  from inflight_read_completes [OF r i p] r show ?thesis by (simp add: current_def)
qed

theorem guards_drain_witness:
  "reachable \<lparr>cl = \<lparr>conf = \<lparr>rw_readers = 1, rw_data = default_config ''/root''\<rparr>\<rparr>,
      pcs = [Reading 5 (default_config ''/root'') (default_config ''/root'')],
      installed = [default_config ''/root'']\<rparr> \<and>
   (\<exists>t. lock_step\<^sup>*\<^sup>* \<lparr>cl = \<lparr>conf = \<lparr>rw_readers = 1, rw_data = default_config ''/root''\<rparr>\<rparr>,
      pcs = [Reading 5 (default_config ''/root'') (default_config ''/root'')],
      installed = [default_config ''/root'']\<rparr> t \<and>
        no_guard_alive t \<and> rw_readers (conf (cl t)) = 0 \<and> current (cl t) = default_config ''/root'')"
proof -
  let ?d = "default_config ''/root''"
  let ?s = "\<lparr>cl = \<lparr>conf = \<lparr>rw_readers = 1, rw_data = ?d\<rparr>\<rparr>, pcs = [Reading 5 ?d ?d], installed = [?d]\<rparr>"
  have r: "reachable ?s" by (rule one_reader_reachable) (simp add: config_field_count_def)
  from guards_drain [OF r] r show ?thesis by (simp add: current_def)
qed

theorem current_equiv_sequential_witness:
  "\<exists>t. lock_step\<^sup>*\<^sup>* (init_sys (default_config ''/root'') 2) t \<and>
     cl t = cl (init_sys (default_config ''/root'') 2) \<and>
     pcs t ! 1 = Returned (default_config ''/root'')"
proof -
  have r: "reachable (init_sys (default_config ''/root'') 2)" by (rule reachable.start)
  from current_equiv_sequential [OF r, of 1]
  show ?thesis by (auto simp: init_sys_def current_def rwlock_new_def)
qed

theorem reader_count_exact_witness:
  "rw_readers (conf (cl (init_sys (default_config ''/root'') 3))) = 0"
  using reader_count_exact [OF reachable.start [of "default_config ''/root''" 3]]
  by (simp add: init_sys_def)

end
