(* ===== verification/Initialize.thy ===== *)
theory Initialize
  imports Codec Config_Lock
begin

text \<open>
  \<open>Config::initialize\<close> (lines 62--101 of \<open>src/src/config.rs\<close>): the default
  snapshot, the file \<open>~/.wtftwrc\<close> opened for reading and writing (created empty when
  absent), its text decoded, and on a decoding failure a log line, the encoding of the
  default written at the file position the read left (the end of the file: the
  \<open>truncate(0)\<close> of line 91 is commented out), an \<open>fsync\<close>, and the default. The
  effects run against an explicit world: the home directory \<open>homedir()\<close> returns, the
  files, whether the open, the read and the write succeed, and the log. The three
  \<open>unwrap()\<close> calls (lines 74 and 84 on \<open>homedir()\<close>, 85 on the open, 86 on the read)
  are the values of \<open>panic\<close>; the results of \<open>write_str\<close> and \<open>fsync\<close> are ignored
  by the code, and so the model has no error for them.

  \<open>startup_on_corrupt\<close> is the whole procedure on a file that does not decode. Which
  files the repair repairs follows from what the parser does after a value: blanks
  before the appended default are skipped (C32), but any other text before it leaves
  the file undecodable, whether it cannot start a value (C11) or is a complete object
  that is not a snapshot (C31).
\<close>

record world =
  home :: "string option"
  files :: "string \<Rightarrow> string option"
  open_ok :: bool
  read_ok :: bool
  write_ok :: bool
  log :: "string list"

text \<open>The task failures of \<open>initialize\<close>: \<open>homedir().unwrap()\<close> without a home
  directory, \<open>File::open_mode(..).unwrap()\<close> and \<open>read_to_string().unwrap()\<close> on an
  I/O error.\<close>

datatype panic = HomeDirUnset | OpenFailed | ReadFailed

definition corrupt_msg :: string where
  "corrupt_msg = ''config file is corrupted. falling back to default.''"

text \<open>\<open>format!("{}/.wtftwrc", homedir().unwrap().to_c_str())\<close>.\<close>

definition rc_path :: "string \<Rightarrow> string" where
  "rc_path h = h @ ''/.wtftwrc''"

text \<open>\<open>File::open_mode(&path, Open, ReadWrite)\<close>: mode \<open>Open\<close> creates the file,
  empty, when it does not exist, and positions at its start.\<close>

definition open_rw :: "world \<Rightarrow> string \<Rightarrow> panic + world" where
  "open_rw w p =
     (if \<not> open_ok w then Inl OpenFailed
      else Inr (case files w p of None \<Rightarrow> w\<lparr>files := (files w)(p \<mapsto> [])\<rparr> | Some _ \<Rightarrow> w))"

definition file_text :: "world \<Rightarrow> string \<Rightarrow> string" where
  "file_text w p = (case files w p of None \<Rightarrow> [] | Some s \<Rightarrow> s)"

text \<open>\<open>read_to_string()\<close>: the whole file; the position is then its end.\<close>

definition read_to_string :: "world \<Rightarrow> string \<Rightarrow> panic + string" where
  "read_to_string w p = (if \<not> read_ok w then Inl ReadFailed else Inr (file_text w p))"

text \<open>\<open>write_str\<close> at the end of the file, where the read left the position; on an
  I/O error nothing is written (the error is dropped by the caller).\<close>

definition write_str :: "world \<Rightarrow> string \<Rightarrow> string \<Rightarrow> world" where
  "write_str w p s = (if write_ok w then w\<lparr>files := (files w)(p \<mapsto> file_text w p @ s)\<rparr> else w)"

text \<open>\<open>fsync()\<close> makes the contents durable; the model has no crash, so it changes
  nothing observable.\<close>

definition fsync :: "world \<Rightarrow> world" where
  "fsync w = w"

definition info :: "world \<Rightarrow> string \<Rightarrow> world" where
  "info w msg = w\<lparr>log := log w @ [msg]\<rparr>"

text \<open>The procedure, step by step as lines 64--101 write it.\<close>

definition initialize :: "world \<Rightarrow> panic + (config_lock \<times> world)" where
  "initialize w =
     (case home w of
        None \<Rightarrow> Inl HomeDirUnset
      | Some h \<Rightarrow>
          (let conf = default_config h; path = rc_path h in
           sbind (open_rw w path) (\<lambda>w1.
           sbind (read_to_string w1 path) (\<lambda>text.
             (case json_decode_config text of
                Inr v \<Rightarrow> Inr (\<lparr>conf = rwlock_new v\<rparr>, w1)
              | Inl _ \<Rightarrow>
                  (let w2 = info w1 corrupt_msg;
                       w3 = write_str w2 path (encode_config conf);
                       w4 = fsync w3
                   in Inr (\<lparr>conf = rwlock_new conf\<rparr>, w4)))))))"

text \<open>The snapshot the start-up settles on, \<open>dec_conf\<close> of lines 86--96: the decoded
  text when it decodes, the default otherwise.\<close>

definition loaded_snapshot :: "string \<Rightarrow> string \<Rightarrow> config" where
  "loaded_snapshot h text =
     (case json_decode_config text of Inr v \<Rightarrow> v | Inl _ \<Rightarrow> default_config h)"

section \<open>Lemmas\<close>

lemma initialize_opened:
  assumes "home w = Some h" and "open_ok w" and "read_ok w"
  shows "initialize w =
    (let w1 = (case files w (rc_path h) of
                 None \<Rightarrow> w\<lparr>files := (files w)(rc_path h \<mapsto> [])\<rparr> | Some _ \<Rightarrow> w)
     in case json_decode_config (file_text w (rc_path h)) of
          Inr v \<Rightarrow> Inr (\<lparr>conf = rwlock_new v\<rparr>, w1)
        | Inl _ \<Rightarrow> Inr (\<lparr>conf = rwlock_new (default_config h)\<rparr>,
            write_str (info w1 corrupt_msg) (rc_path h) (encode_config (default_config h))))"
  using assms
  by (cases "files w (rc_path h)")
     (simp_all add: initialize_def open_rw_def read_to_string_def file_text_def fsync_def Let_def
       split: sum.split)

lemma startup_on_corrupt:
  assumes "home w = Some h" and "open_ok w" and "read_ok w" and "write_ok w"
    and "files w (rc_path h) = Some c" and "json_decode_config c = Inl e"
  shows "initialize w = Inr (\<lparr>conf = rwlock_new (default_config h)\<rparr>,
    w\<lparr>files := (files w)(rc_path h \<mapsto> c @ encode_config (default_config h)),
      log := log w @ [corrupt_msg]\<rparr>)"
  using assms by (simp add: initialize_opened file_text_def write_str_def info_def)

lemma startup_on_bad_start:
  assumes "home w = Some h" and "open_ok w" and "read_ok w" and "write_ok w"
    and "files w (rc_path h) = Some c" and "skip_ws c = d # r" and "\<not> value_start d"
  shows "initialize w = Inr (\<lparr>conf = rwlock_new (default_config h)\<rparr>,
    w\<lparr>files := (files w)(rc_path h \<mapsto> c @ encode_config (default_config h)),
      log := log w @ [corrupt_msg]\<rparr>)"
  using assms(1-5) json_decode_config_bad_start [OF assms(6,7)] by (rule startup_on_corrupt)

text \<open>What one start-up may change: nothing but \<open>~/.wtftwrc\<close>, which only grows at its
  end, and the log, which only grows.\<close>

lemma initialize_frame:
  assumes "home w = Some h" and "initialize w = Inr (l, w')"
  shows "home w' = home w \<and> (\<forall>p. p \<noteq> rc_path h \<longrightarrow> files w' p = files w p) \<and>
    (\<exists>m. log w' = log w @ m) \<and>
    (\<forall>c. files w (rc_path h) = Some c \<longrightarrow> (\<exists>t. files w' (rc_path h) = Some (c @ t)))"
proof -
  have ok: "open_ok w \<and> read_ok w"
    using assms
    by (cases "open_ok w"; cases "read_ok w"; cases "files w (rc_path h)")
       (simp_all add: initialize_def sbind_def open_rw_def read_to_string_def Let_def)
  show ?thesis
    using assms(2) unfolding initialize_opened [OF assms(1) ok [THEN conjunct1] ok [THEN conjunct2]]
    by (cases "files w (rc_path h)")
       (auto simp: Let_def write_str_def info_def file_text_def split: sum.splits if_splits)
qed

section \<open>Properties of the start-up procedure\<close>

text \<open>C8. A file holding a valid encoding: when \<open>~/.wtftwrc\<close> decodes to a snapshot
  \<open>S\<close>, \<open>initialize\<close> returns a lock holding \<open>S\<close>, writes no log line and leaves
  the world, the file included, as it was.\<close>

theorem initialize_valid_file:
  assumes "home w = Some h" and "open_ok w" and "read_ok w"
    and "files w (rc_path h) = Some s" and "json_decode_config s = Inr S"
  shows "initialize w = Inr (\<lparr>conf = rwlock_new S\<rparr>, w)"
  using assms by (simp add: initialize_opened file_text_def)

text \<open>C9. A missing file: \<open>initialize\<close> creates it, finds it empty, logs one line,
  writes the encoding of the default snapshot into it and returns the default; what
  it wrote decodes back to the default.\<close>

theorem initialize_missing_file:
  assumes "home w = Some h" and "open_ok w" and "read_ok w" and "write_ok w"
    and "files w (rc_path h) = None"
  shows "\<exists>w'. initialize w = Inr (\<lparr>conf = rwlock_new (default_config h)\<rparr>, w') \<and>
    files w' = (files w)(rc_path h \<mapsto> encode_config (default_config h)) \<and>
    log w' = log w @ [corrupt_msg] \<and>
    json_decode_config (encode_config (default_config h)) = Inr (default_config h)"
  using assms
  by (simp add: initialize_opened file_text_def json_decode_config_empty write_str_def info_def
      codec_roundtrip)

text \<open>C10. A file that does not decode: \<open>initialize\<close> logs one line, returns the
  default, and, when the write succeeds, the file holds its old text followed by the
  encoding of the default (the write appends; no other file changes).\<close>

theorem initialize_corrupt_file:
  assumes "home w = Some h" and "open_ok w" and "read_ok w"
    and "files w (rc_path h) = Some c" and "json_decode_config c = Inl e"
  shows "\<exists>w'. initialize w = Inr (\<lparr>conf = rwlock_new (default_config h)\<rparr>, w') \<and>
    log w' = log w @ [corrupt_msg] \<and>
    files w' = (files w)(rc_path h \<mapsto> (if write_ok w then c @ encode_config (default_config h) else c))"
  using assms
  by (auto simp: initialize_opened file_text_def write_str_def info_def)

text \<open>C11. The repair does not repair: for a file whose first non-blank byte cannot
  start a JSON value, the text \<open>initialize\<close> leaves in the file still fails to decode,
  although the default is in use; the spec requires the file not to be left in a state
  that fails to decode on the next run.\<close>

theorem repair_leaves_file_corrupt:
  assumes "home w = Some h" and "open_ok w" and "read_ok w"
    and "files w (rc_path h) = Some c" and "skip_ws c = d # r" and "\<not> value_start d"
    and "initialize w = Inr (l, w')"
  shows "current l = default_config h \<and>
    (\<exists>c'. files w' (rc_path h) = Some c' \<and> json_decode_config c' = Inl (ParseError InvalidSyntax))"
proof -
  have bad: "json_decode_config (c @ t) = Inl (ParseError InvalidSyntax)" for t
    using assms(5,6) skip_ws_append [of c t] by (simp add: json_decode_config_bad_start)
  from bad [of "[]"] assms show ?thesis
    by (auto simp: initialize_opened file_text_def write_str_def info_def current_def rwlock_new_def bad)
qed

text \<open>C31. An object that does not decode is not repaired either: when the file holds a
  JSON object that is not a snapshot (a field missing or of the wrong type, as in a
  file written by an older version of the struct), \<open>initialize\<close> returns the default
  and appends its encoding after the object, and the file then fails to decode with
  trailing characters, so the next start-up finds it corrupt again.\<close>

theorem repair_object_file_fails:
  assumes "home w = Some h" and "open_ok w" and "read_ok w" and "write_ok w"
    and "files w (rc_path h) = Some (encode_json (Object kvs))"
    and "canonical (Object kvs)" and "config_from_json (Object kvs) = Inl e"
  shows "\<exists>w'. initialize w = Inr (\<lparr>conf = rwlock_new (default_config h)\<rparr>, w') \<and>
    files w' (rc_path h) = Some (encode_json (Object kvs) @ encode_config (default_config h)) \<and>
    json_decode_config (encode_json (Object kvs) @ encode_config (default_config h)) =
      Inl (ParseError TrailingCharacters)"
proof -
  have "json_decode_config (encode_json (Object kvs)) = Inl e"
    using json_decode_config_encode_json [OF assms(6)] assms(7) by simp
  from startup_on_corrupt [OF assms(1-5) this]
  show ?thesis
    using json_decode_config_object_trailing [OF assms(6) skip_ws_encode_config [of "[]"]] by simp
qed

text \<open>C32. A blank file is repaired: when the file holds only blanks (spaces, tabs,
  newlines), \<open>initialize\<close> logs one line, returns the default and appends its
  encoding, and the file then decodes to the default.\<close>

theorem repair_blank_file:
  assumes "home w = Some h" and "open_ok w" and "read_ok w" and "write_ok w"
    and "files w (rc_path h) = Some c" and "skip_ws c = []"
  shows "\<exists>w'. initialize w = Inr (\<lparr>conf = rwlock_new (default_config h)\<rparr>, w') \<and>
    log w' = log w @ [corrupt_msg] \<and>
    files w' (rc_path h) = Some (c @ encode_config (default_config h)) \<and>
    json_decode_config (c @ encode_config (default_config h)) = Inr (default_config h)"
proof -
  have "json_decode_config c = Inl (ParseError EOFWhileParsingValue)"
    using json_decode_config_blank_prefix [OF assms(6), of "[]"] by (simp add: json_decode_config_empty)
  from startup_on_corrupt [OF assms(1-5) this]
  show ?thesis by (simp add: json_decode_config_blank_prefix [OF assms(6)] codec_roundtrip)
qed

text \<open>C12. The start-up panics exactly when there is no home directory, or the open or
  the read of the file fails (the three \<open>unwrap\<close> calls); otherwise it returns a
  lock. The spec requires \<open>initialize\<close> to be total and an unreadable file to be
  treated like one that does not decode.\<close>

theorem initialize_panics:
  "initialize w = Inl p \<longleftrightarrow>
     (home w = None \<and> p = HomeDirUnset) \<or>
     (home w \<noteq> None \<and> \<not> open_ok w \<and> p = OpenFailed) \<or>
     (home w \<noteq> None \<and> open_ok w \<and> \<not> read_ok w \<and> p = ReadFailed)"
  by (auto simp: initialize_def open_rw_def read_to_string_def Let_def
      split: option.split sum.split)

theorem initialize_valid_file_witness:
  "initialize \<lparr>home = Some ''/root'', files = [rc_path ''/root'' \<mapsto> encode_config (default_config ''/h'')],
      open_ok = True, read_ok = True, write_ok = False, log = []\<rparr> =
   Inr (\<lparr>conf = rwlock_new (default_config ''/h'')\<rparr>,
      \<lparr>home = Some ''/root'', files = [rc_path ''/root'' \<mapsto> encode_config (default_config ''/h'')],
       open_ok = True, read_ok = True, write_ok = False, log = []\<rparr>)"
  by (rule initialize_valid_file [where s = "encode_config (default_config ''/h'')"])
    (simp_all add: codec_roundtrip)

theorem initialize_missing_file_witness:
  "\<exists>w'. initialize \<lparr>home = Some ''/root'', files = Map.empty, open_ok = True, read_ok = True,
        write_ok = True, log = []\<rparr> = Inr (\<lparr>conf = rwlock_new (default_config ''/root'')\<rparr>, w') \<and>
    files w' = [rc_path ''/root'' \<mapsto> encode_config (default_config ''/root'')] \<and>
    log w' = [corrupt_msg] \<and>
    json_decode_config (encode_config (default_config ''/root'')) = Inr (default_config ''/root'')"
  using initialize_missing_file [of "\<lparr>home = Some ''/root'', files = Map.empty, open_ok = True,
      read_ok = True, write_ok = True, log = []\<rparr>" "''/root''"]
  by simp

theorem initialize_corrupt_file_witness:
  "\<exists>w'. initialize \<lparr>home = Some ''/root'', files = [rc_path ''/root'' \<mapsto> ''x''], open_ok = True,
        read_ok = True, write_ok = True, log = []\<rparr> = Inr (\<lparr>conf = rwlock_new (default_config ''/root'')\<rparr>, w') \<and>
    log w' = [corrupt_msg] \<and>
    files w' = [rc_path ''/root'' \<mapsto> ''x'' @ encode_config (default_config ''/root'')]"
proof -
  have "json_decode_config ''x'' = Inl (ParseError InvalidSyntax)"
    by (simp add: json_decode_config_def json_from_str_def parse_scalar_def is_digit_def is_ws_def)
  from initialize_corrupt_file [of "\<lparr>home = Some ''/root'', files = [rc_path ''/root'' \<mapsto> ''x''],
      open_ok = True, read_ok = True, write_ok = True, log = []\<rparr>" "''/root''", OF _ _ _ _ this]
  show ?thesis by simp
qed

theorem repair_leaves_file_corrupt_witness:
  "\<exists>l w'. initialize \<lparr>home = Some ''/root'', files = [rc_path ''/root'' \<mapsto> ''x''], open_ok = True,
        read_ok = True, write_ok = True, log = []\<rparr> = Inr (l, w') \<and>
    current l = default_config ''/root'' \<and>
    (\<exists>c'. files w' (rc_path ''/root'') = Some c' \<and> json_decode_config c' = Inl (ParseError InvalidSyntax))"
proof -
  define w0 where "w0 = \<lparr>home = Some ''/root'', files = [rc_path ''/root'' \<mapsto> ''x''], open_ok = True,
        read_ok = True, write_ok = True, log = []\<rparr>"
  have "json_decode_config ''x'' = Inl (ParseError InvalidSyntax)"
    by (simp add: json_decode_config_def json_from_str_def parse_scalar_def is_digit_def is_ws_def)
  then obtain l w' where i: "initialize w0 = Inr (l, w')"
    by (simp add: w0_def initialize_opened file_text_def)
  have "\<not> value_start (CHR ''x'')" by (simp add: value_start_def is_digit_def)
  from repair_leaves_file_corrupt [OF _ _ _ _ _ this i, of "''/root''" "''x''" "[]"] i
  show ?thesis by (simp add: w0_def is_ws_def)
qed

theorem initialize_panics_witness:
  "initialize \<lparr>home = None, files = Map.empty, open_ok = True, read_ok = True, write_ok = True,
      log = []\<rparr> = Inl HomeDirUnset"
  using initialize_panics [of "\<lparr>home = None, files = Map.empty, open_ok = True, read_ok = True,
      write_ok = True, log = []\<rparr>" HomeDirUnset]
  by simp

theorem repair_object_file_fails_witness:
  "\<exists>w'. initialize \<lparr>home = Some ''/root'', files = [rc_path ''/root'' \<mapsto> ''{}''], open_ok = True,
        read_ok = True, write_ok = True, log = []\<rparr> = Inr (\<lparr>conf = rwlock_new (default_config ''/root'')\<rparr>, w') \<and>
    json_decode_config (''{}'' @ encode_config (default_config ''/root'')) = Inl (ParseError TrailingCharacters)"
proof -
  have "config_from_json (Object []) = Inl (MissingFieldError ''focus_follows_mouse'')"
    by (simp add: config_from_json_def read_struct_field_def lookup_last_def read_bool_def)
  from repair_object_file_fails [of "\<lparr>home = Some ''/root'', files = [rc_path ''/root'' \<mapsto> ''{}''],
      open_ok = True, read_ok = True, write_ok = True, log = []\<rparr>" "''/root''" "[]", OF _ _ _ _ _ _ this]
  show ?thesis by simp blast
qed

theorem repair_blank_file_witness:
  "\<exists>w'. initialize \<lparr>home = Some ''/root'', files = [rc_path ''/root'' \<mapsto> '' ''], open_ok = True,
        read_ok = True, write_ok = True, log = []\<rparr> = Inr (\<lparr>conf = rwlock_new (default_config ''/root'')\<rparr>, w') \<and>
    json_decode_config ('' '' @ encode_config (default_config ''/root'')) = Inr (default_config ''/root'')"
  using repair_blank_file [of "\<lparr>home = Some ''/root'', files = [rc_path ''/root'' \<mapsto> '' ''],
      open_ok = True, read_ok = True, write_ok = True, log = []\<rparr>" "''/root''" "'' ''"]
  by (simp add: is_ws_def) blast

end
