(* ===== verification/Spec2Isabelle.thy ===== *)
theory Spec2Isabelle
  imports Initialize
begin

text \<open>
  \<^bold>\<open>A verification development of the configuration store of wtftw.\<close>

  The program is one Rust file, \<open>src/src/config.rs\<close> (101 lines, Rust 0.12 era): the
  configuration snapshot \<open>struct Config\<close> (lines 9--34, with derived \<open>Encodable\<close>,
  \<open>Decodable\<close> and \<open>Clone\<close>), the store \<open>struct ConfigLock\<close> holding the snapshot
  behind a \<open>std::sync::RWLock\<close> with its reader \<open>current\<close> (lines 36--46) and its
  writer \<open>Updatable::update\<close> (lines 49--60), and the start-up procedure
  \<open>Config::initialize\<close> (lines 62--101), which builds the default snapshot, opens
  \<open>~/.wtftwrc\<close>, decodes it with \<open>serialize::json\<close> and, when decoding fails, logs
  a message, writes the JSON encoding of the default into the file and falls back to
  the default. The window manager around it calls \<open>initialize\<close> once, then
  \<open>current\<close> from its threads and \<open>update\<close> on a reload key.

  \<^bold>\<open>Theories, in import order.\<close>
  \<^item> \<open>Prelude\<close>: machine integer types (\<open>u32\<close>, \<open>u64\<close> as words), decimal digits
    (\<open>decimal\<close>, \<open>digits_value\<close>), the last-binding-wins lookup of an association
    list, and the list, map and word lemmas the components share.
  \<^item> \<open>Config\<close>: the record \<open>config\<close> (the struct, field for field),
    \<open>default_config\<close> (lines 66--82, a function of the home directory because the log
    path is built from it), and the derived \<open>Clone\<close> as eleven field copies
    \<open>copy_field\<close> composed by \<open>clone_prefix\<close>.
  \<^item> \<open>Json\<close>, \<open>Json_Parser\<close>: the JSON library \<open>serialize::json\<close> the code links
    against. It is not in the repository and is modelled from its documented behaviour:
    the \<open>json\<close> datatype, the compact printer \<open>print_json\<close> (with the text of an
    unsigned integer as a parameter; the encoder is \<open>encode_json\<close>), and the parser
    \<open>json_from_str\<close>, a recursive descent \<open>parse\<close> over a parser position with a
    fuel argument. Every parse step consumes input (\<open>parse_length\<close>), so fuel one
    larger than the text is enough (\<open>parse_enough_fuel\<close>) and more fuel changes nothing
    (\<open>parse_fuel_le\<close>). The printed text of a value is read back as the value
    (\<open>parse_print_json\<close>, for every integer printer the parser reads back). Integers
    are read as the library reads them, into a wrapping \<open>u64\<close> whose overflow test
    only catches a wrap to zero (\<open>parse_u64_decimal_wrap\<close>).
  \<^item> \<open>Config_Lock\<close>: the lock as a record of its reader count and its data
    (\<open>rwlock\<close>), the store \<open>config_lock\<close>, the sequential \<open>current\<close> and
    \<open>update\<close>, and the concurrent behaviour as the step relation \<open>lock_step\<close> over a
    list of reader threads: a call of \<open>current\<close> is its acquire, its eleven field
    copies and its release; a writer step is the whole assignment of \<open>update\<close>,
    enabled only when no guard is alive, which is what \<open>&mut self\<close> demands. The
    ghost field \<open>installed\<close> records every snapshot installed. The invariant
    \<open>lock_inv\<close> holds in every reachable state (\<open>reachable_lock_inv\<close>, by rule
    induction). On it rest C1 (refinement of an atomic register), C2 (no torn reads),
    C3 (reads linearized at their acquire), C4 (the writer's exclusion), C5 and C6
    (liveness: an in-flight read completes; the guards drain so \<open>update\<close> becomes
    enabled), C23 (an uninterrupted read is the sequential \<open>current\<close>) and C24 (the
    reader count is exact).
  \<^item> \<open>Codec\<close>: the derived \<open>Encodable\<close> as the streaming encoder
    \<open>encode_config\<close> (equal to printing \<open>config_to_json\<close>), the derived
    \<open>Decodable\<close> as \<open>config_from_json\<close> over the library's decoder primitives
    (\<open>read_struct_field\<close> with the missing-field path through \<open>Null\<close>), and
    \<open>json::decode\<close> as \<open>json_decode_config\<close>. C7 round trip; C13 field-by-field
    characterization of decoding; C14 missing fields; C15 integers given as strings are
    accepted; C19 decoding terminates, independent of fuel; C20 the u32 range check,
    C30 its sign check; C34 blanks around the encoding are accepted;
    C21 integers beyond \<open>u64\<close> wrap silently; C22 the encoder writes an object with
    the eleven fields in order; C25 unknown members are ignored and the last binding of
    a field wins; C26 the error of a failed decoding is that of the first field, in
    declaration order, that fails on its own (against the reference
    \<open>config_decode_error\<close>), whatever the members' order in the text.
  \<^item> \<open>Initialize\<close>: \<open>Config::initialize\<close> over an explicit \<open>world\<close> (home
    directory, files, the outcome of open, read and write, the log), every step a
    definition (\<open>open_rw\<close>, \<open>read_to_string\<close>, \<open>info\<close>, \<open>write_str\<close>,
    \<open>fsync\<close>) and the three \<open>unwrap\<close> panics as values of \<open>panic\<close>. C8--C10 the
    valid, missing and corrupt file; C11 the repair leaves a corrupt file corrupt (the
    write appends, \<open>truncate(0)\<close> is commented out); C31 nor does it repair a
    JSON object that is not a snapshot (a file of an older struct: the appended default
    is refused as trailing characters); C32 only a blank file is repaired; C12 exactly
    when it panics.
  \<^item> This theory: \<open>startups\<close> (the program started \<open>n\<close> times over one world) and
    the properties across components: C16 reads after start-up return the file's
    snapshot, C17 a second start-up after a missing file is a fixed point, C18 a
    garbage file grows by one encoding and one log line per start-up, and C33 so does a
    file holding an object that is not a snapshot (both through
    \<open>startups_corrupt_grow\<close>: a file that stays undecodable under appended encodings
    grows by one of them per start-up); C35 start-ups never lose the user's text: the
    file keeps what it held as a prefix, no other file changes, the log only grows. The caller's hot
    reload \<open>reload\<close>, modelled from the spec's caller contract: it re-runs the
    load-and-decode sequence \<open>initialize\<close> and hands the snapshot to \<open>update\<close>.
    \<open>loaded_snapshot\<close> (theory \<open>Initialize\<close>, the \<open>dec_conf\<close> match of lines 86--96)
    names the snapshot a file determines, apart from any lock. C27 a reload is one lock
    step and one atomic replace of the abstract register by that snapshot; C28 reads
    after a reload done with every reader idle return it; C29 a reload installs the
    decoded file, or the default when it does not decode.

  \<^bold>\<open>Fuel.\<close> The parser runs with fuel \<open>length s + 1\<close>; each call consumes at least
  one byte of input before it recurses, so that fuel is never exhausted, and every
  larger fuel gives the same result (C19).

  \<^bold>\<open>Not modelled.\<close> The window manager that calls the store (only its threads, as
  \<open>lock_step\<close>, its restarts, as \<open>startups\<close>, and its reload request, as
  \<open>reload\<close>; not its event loop or key dispatch); the scheduler's fairness (the
  liveness facts exhibit runs, they assume nothing about schedules); poisoning of the
  lock (no writer ever holds it); crashes between \<open>write_str\<close> and \<open>fsync\<close>; whether
  \<open>info!\<close> is enabled by the log level (the model logs every message); the value of
  JSON floats (kept as their literal text, since no field is a float); the message
  texts of decoder errors; partial writes. Two behaviours of the library and the
  standard library are abstracted: \<open>terminal\<close> given as an array whose length is not
  two is a decoding error in the model (\<open>read_string_pair\<close>), where a tuple decoder that
  asserts the length, or pops an empty decoder stack, would panic; and the outcome of
  \<open>read_to_string\<close> is the flag \<open>read_ok\<close>, not tied to the contents, where the real
  read also fails on bytes that are not UTF-8. In both cases the real program panics
  where the model decodes or falls back, so C12 (exactly when \<open>initialize\<close> panics)
  holds of the model, and of the code at least for files of valid UTF-8 whose
  \<open>terminal\<close> is not an array of a length other than two.
\<close>

section \<open>Start-ups in a row\<close>

text \<open>The window manager started \<open>n\<close> times in a row over the same world: each run
  calls \<open>initialize\<close> on the world the previous run left.\<close>

fun startups :: "nat \<Rightarrow> world \<Rightarrow> panic + world" where
  "startups 0 w = Inr w"
| "startups (Suc n) w = sbind (initialize w) (\<lambda>(l, w'). startups n w')"

section \<open>Reload on request\<close>

text \<open>The caller's hot reload, as the spec describes it (the window manager is not in
  the sources): on the reload key it re-runs its load-from-path and decode sequence,
  which is \<open>Config::initialize\<close> with its fallback to the default and its repair of the
  file, and hands the snapshot it obtained to \<open>Updatable::update\<close> on the shared
  store. The panics of \<open>initialize\<close> pass through.\<close>

definition reload :: "world \<Rightarrow> config_lock \<Rightarrow> panic + (config_lock \<times> world)" where
  "reload w l = sbind (initialize w) (\<lambda>(c, w'). Inr (update l (current c), w'))"

section \<open>Properties across components\<close>

lemma reload_opened:
  assumes "home w = Some h" and "open_ok w" and "read_ok w" and "files w (rc_path h) = Some text"
  shows "\<exists>w'. reload w l = Inr (update l (loaded_snapshot h text), w')"
  using assms
  by (simp add: reload_def sbind_def initialize_opened file_text_def loaded_snapshot_def Let_def
      current_def rwlock_new_def split: sum.split)

lemma startups_corrupt_grow:
  assumes "home w = Some h" and "open_ok w" and "read_ok w" and "write_ok w"
    and "files w (rc_path h) = Some c"
    and "\<And>k. isl (json_decode_config (c @ concat (replicate k (encode_config (default_config h)))))"
  shows "\<exists>w'. startups n w = Inr w' \<and> log w' = log w @ replicate n corrupt_msg \<and>
    files w' (rc_path h) = Some (c @ concat (replicate n (encode_config (default_config h))))"
  using assms
proof (induction n arbitrary: w c)
  case 0
  then show ?case by simp
next
  case (Suc n)
  define w1 where "w1 = w\<lparr>files := (files w)(rc_path h \<mapsto> c @ encode_config (default_config h)),
      log := log w @ [corrupt_msg]\<rparr>"
  from Suc.prems(6) [of 0] obtain e where "json_decode_config c = Inl e" by (auto simp: isl_def)
  with Suc.prems have i: "initialize w = Inr (\<lparr>conf = rwlock_new (default_config h)\<rparr>, w1)"
    unfolding w1_def by (intro startup_on_corrupt)
  have "isl (json_decode_config ((c @ encode_config (default_config h)) @
      concat (replicate k (encode_config (default_config h)))))" for k
    using Suc.prems(6) [of "Suc k"] by simp
  with Suc.IH [of w1 "c @ encode_config (default_config h)"] Suc.prems
  obtain w' where "startups n w1 = Inr w'" and "log w' = log w1 @ replicate n corrupt_msg"
    and "files w' (rc_path h) =
      Some ((c @ encode_config (default_config h)) @ concat (replicate n (encode_config (default_config h))))"
    by (auto simp: w1_def)
  with i show ?case by (simp add: w1_def)
qed

text \<open>C16. Start-up followed by concurrent reads: after \<open>initialize\<close> found a valid
  encoding of \<open>S\<close> in the file, every read any reader thread completes before the next
  \<open>update\<close>, in any interleaving of the threads, returns \<open>S\<close>, and \<open>S\<close> stays installed.\<close>

theorem startup_reads_file_snapshot:
  assumes "home w = Some h" and "open_ok w" and "read_ok w"
    and "files w (rc_path h) = Some (encode_config S)"
    and "initialize w = Inr (l, w')"
    and "(\<lambda>s t. lock_step s t \<and> installed t = installed s)\<^sup>*\<^sup>*
           \<lparr>cl = l, pcs = replicate n Idle, installed = [S]\<rparr> s"
  shows "current (cl s) = S \<and> (\<forall>c. Returned c \<in> set (pcs s) \<longrightarrow> c = S)"
proof -
  from assms(1-5) have "l = \<lparr>conf = rwlock_new S\<rparr>"
    by (simp add: initialize_opened file_text_def codec_roundtrip)
  with assms(6) have "(\<lambda>s t. lock_step s t \<and> installed t = installed s)\<^sup>*\<^sup>* (init_sys S n) s"
    by (simp add: init_sys_def)
  then show ?thesis by (rule no_replace_reads)
qed

text \<open>C17. After a start-up from a missing file, the next start-up finds what the first
  wrote, decodes it to the same snapshot, logs nothing and changes nothing: the world
  is a fixed point of \<open>initialize\<close>.\<close>

theorem second_startup_stable:
  assumes "home w = Some h" and "open_ok w" and "read_ok w" and "write_ok w"
    and "files w (rc_path h) = None"
    and "initialize w = Inr (l, w')"
  shows "initialize w' = Inr (l, w')"
proof -
  from assms have l: "l = \<lparr>conf = rwlock_new (default_config h)\<rparr>"
    and w': "w' = (info (w\<lparr>files := (files w)(rc_path h \<mapsto> [])\<rparr>) corrupt_msg)
       \<lparr>files := (files w)(rc_path h \<mapsto> encode_config (default_config h))\<rparr>"
    by (simp_all add: initialize_opened file_text_def json_decode_config_empty write_str_def info_def)
  from assms(1-4) show ?thesis
    by (simp add: l w' initialize_opened file_text_def info_def codec_roundtrip)
qed

text \<open>C18. A file starting with a byte no JSON value starts with is never repaired:
  every start-up logs again and appends another encoding of the default, so after
  \<open>n\<close> start-ups the log has \<open>n\<close> more lines and the file \<open>n\<close> more copies.\<close>

theorem restarts_grow_file:
  assumes "home w = Some h" and "open_ok w" and "read_ok w" and "write_ok w"
    and "files w (rc_path h) = Some c" and "skip_ws c = d # r" and "\<not> value_start d"
  shows "\<exists>w'. startups n w = Inr w' \<and> log w' = log w @ replicate n corrupt_msg \<and>
    files w' (rc_path h) = Some (c @ concat (replicate n (encode_config (default_config h))))"
proof (rule startups_corrupt_grow [OF assms(1-5)])
  fix k
  have "skip_ws (c @ concat (replicate k (encode_config (default_config h)))) =
      d # (r @ concat (replicate k (encode_config (default_config h))))"
    using assms(6) skip_ws_append [of c] by simp
  with assms(7) show "isl (json_decode_config (c @ concat (replicate k (encode_config (default_config h)))))"
    by (simp add: json_decode_config_bad_start)
qed

text \<open>C33. A file holding an object that is not a snapshot is never repaired either:
  every start-up logs again and appends another encoding of the default after the
  object, so after \<open>n\<close> start-ups the log has \<open>n\<close> more lines and the file \<open>n\<close>
  more copies.\<close>

theorem restarts_grow_object_file:
  assumes "home w = Some h" and "open_ok w" and "read_ok w" and "write_ok w"
    and "files w (rc_path h) = Some (encode_json (Object kvs))"
    and "canonical (Object kvs)" and "config_from_json (Object kvs) = Inl e"
  shows "\<exists>w'. startups n w = Inr w' \<and> log w' = log w @ replicate n corrupt_msg \<and>
    files w' (rc_path h) = Some (encode_json (Object kvs) @ concat (replicate n (encode_config (default_config h))))"
proof (rule startups_corrupt_grow [OF assms(1-5)])
  fix k
  show "isl (json_decode_config (encode_json (Object kvs) @ concat (replicate k (encode_config (default_config h)))))"
  proof (cases k)
    case 0
    then show ?thesis using json_decode_config_encode_json [OF assms(6)] assms(7) by simp
  next
    case (Suc k')
    then show ?thesis
      using json_decode_config_object_trailing [OF assms(6) skip_ws_encode_config [of "[]"]]
        json_decode_config_object_trailing [OF assms(6)] skip_ws_encode_config [of "[]"]
      by (simp add: skip_ws_append_cases)
  qed
qed

text \<open>C35. Start-ups never lose the user's text: after any number of start-ups that
  return, the home directory and every other file are as they were, the log has only
  grown, and \<open>~/.wtftwrc\<close> still begins with the text it held before (the repair only
  appends).\<close>

theorem restarts_keep_user_text:
  assumes "home w = Some h" and "startups n w = Inr w'"
  shows "home w' = home w \<and> (\<forall>p. p \<noteq> rc_path h \<longrightarrow> files w' p = files w p) \<and>
    (\<exists>m. log w' = log w @ m) \<and>
    (\<forall>c. files w (rc_path h) = Some c \<longrightarrow> (\<exists>t. files w' (rc_path h) = Some (c @ t)))"
  using assms
proof (induction n arbitrary: w)
  case 0
  then show ?case by simp
next
  case (Suc n)
  from Suc.prems(2) obtain l w1 where i: "initialize w = Inr (l, w1)" and r: "startups n w1 = Inr w'"
    by (auto simp: sbind_def split: sum.splits)
  note f1 = initialize_frame [OF Suc.prems(1) i]
  then have "home w1 = Some h" using Suc.prems(1) by simp
  note f2 = Suc.IH [OF this r]
  show ?case
  proof (intro conjI allI impI)
    show "home w' = home w" using f1 f2 by simp
    show "files w' p = files w p" if "p \<noteq> rc_path h" for p using f1 f2 that by simp
    show "\<exists>m. log w' = log w @ m" using f1 f2 by auto
    show "\<exists>t. files w' (rc_path h) = Some (c @ t)" if "files w (rc_path h) = Some c" for c
      using f1 f2 that by fastforce
  qed
qed

text \<open>C27. A reload refines the register's replace: from a reachable state without
  live guards, when the home directory is set and the file opens and reads, the reload
  returns, and what it does to the lock is one step of the lock (the whole-snapshot
  assignment of \<open>update\<close>) and one atomic replace of the abstract register by the
  snapshot the file determines: its decoding, or the default when it does not decode
  (\<open>loaded_snapshot\<close>, stated apart from the reload).\<close>

theorem reload_refines_replace:
  assumes "reachable s" and "no_guard_alive s"
    and "home w = Some h" and "open_ok w" and "read_ok w" and "files w (rc_path h) = Some text"
  shows "\<exists>l' w'. reload w (cl s) = Inr (l', w') \<and>
    lock_step s (s\<lparr>cl := l', installed := loaded_snapshot h text # installed s\<rparr>) \<and>
    abs_reg (s\<lparr>cl := l', installed := loaded_snapshot h text # installed s\<rparr>) =
      (abs_reg s)\<lparr>slot := loaded_snapshot h text\<rparr> \<and>
    reg_step (abs_reg s) ((abs_reg s)\<lparr>slot := loaded_snapshot h text\<rparr>)"
proof -
  let ?S = "loaded_snapshot h text"
  from reload_opened [OF assms(3-6)] obtain w' where r: "reload w (cl s) = Inr (update (cl s) ?S, w')" ..
  have "lock_step s (s\<lparr>cl := update (cl s) ?S, installed := ?S # installed s\<rparr>)"
    using assms(2) by (rule lock_step.replace)
  moreover have "abs_reg (s\<lparr>cl := update (cl s) ?S, installed := ?S # installed s\<rparr>) = (abs_reg s)\<lparr>slot := ?S\<rparr>"
    by (simp add: abs_reg_def current_def update_def rwlock_new_def)
  ultimately show ?thesis using r by (blast intro: reg_step.reg_replace)
qed

text \<open>C28. Reads after a reload: when the reload happens with every reader thread idle,
  every read completed afterwards, in any interleaving and until the next
  \<open>update\<close>, returns the snapshot the file determines (its decoding, or the default),
  and that snapshot stays installed.\<close>

theorem reload_then_reads:
  assumes "reachable s" and "\<forall>p \<in> set (pcs s). p = Idle"
    and "home w = Some h" and "open_ok w" and "read_ok w" and "files w (rc_path h) = Some text"
    and "reload w (cl s) = Inr (l', w')"
    and "(\<lambda>s t. lock_step s t \<and> installed t = installed s)\<^sup>*\<^sup>*
           (s\<lparr>cl := l', installed := loaded_snapshot h text # installed s\<rparr>) u"
  shows "current (cl u) = loaded_snapshot h text \<and>
    (\<forall>c. Returned c \<in> set (pcs u) \<longrightarrow> c = loaded_snapshot h text)"
proof -
  let ?S = "loaded_snapshot h text"
  let ?t = "s\<lparr>cl := l', installed := ?S # installed s\<rparr>"
  from reload_opened [OF assms(3-6), of "cl s"] assms(7) have l': "l' = update (cl s) ?S" by auto
  have ng: "no_guard_alive s" using assms(2) by (auto simp: no_guard_alive_def)
  have "lock_step s ?t" using lock_step.replace [OF ng, of ?S] by (simp add: l')
  with assms(1) have rt: "reachable ?t" by (rule reachable.step)
  have "\<forall>c. Returned c \<in> set (pcs ?t) \<longrightarrow> c = current (cl ?t)" using assms(2) by auto
  from stable_reads [OF assms(8) rt this] show ?thesis
    by (simp add: l' current_def update_def rwlock_new_def)
qed

text \<open>C29. What a reload installs: when the home directory is set and the file opens and
  reads, a reload returns, and the snapshot it installs is the decoded file, or the
  default when the file does not decode (the spec's recovery by substituting the
  default, in reload as at start-up).\<close>

theorem reload_installs:
  assumes "home w = Some h" and "open_ok w" and "read_ok w" and "files w (rc_path h) = Some text"
  shows "\<exists>l' w'. reload w l = Inr (l', w') \<and>
    current l' = (case json_decode_config text of Inr S \<Rightarrow> S | Inl _ \<Rightarrow> default_config h)"
  using assms
  by (simp add: reload_def initialize_opened file_text_def sbind_def current_def rwlock_new_def
      update_def split: sum.split)

theorem startup_reads_file_snapshot_witness:
  "current (cl \<lparr>cl = \<lparr>conf = rwlock_new (default_config ''/h'')\<rparr>, pcs = replicate 2 Idle,
      installed = [default_config ''/h'']\<rparr>) = default_config ''/h''"
proof -
  define w where "w = \<lparr>home = Some ''/root'', files = [rc_path ''/root'' \<mapsto> encode_config (default_config ''/h'')],
      open_ok = True, read_ok = True, write_ok = False, log = []\<rparr>"
  have i: "initialize w = Inr (\<lparr>conf = rwlock_new (default_config ''/h'')\<rparr>, w)"
    by (simp add: w_def initialize_opened file_text_def codec_roundtrip)
  have "current (cl \<lparr>cl = \<lparr>conf = rwlock_new (default_config ''/h'')\<rparr>, pcs = replicate 2 Idle,
      installed = [default_config ''/h'']\<rparr>) = default_config ''/h'' \<and>
   (\<forall>c. Returned c \<in> set (pcs \<lparr>cl = \<lparr>conf = rwlock_new (default_config ''/h'')\<rparr>,
      pcs = replicate 2 Idle, installed = [default_config ''/h'']\<rparr>) \<longrightarrow> c = default_config ''/h'')"
    by (rule startup_reads_file_snapshot [OF _ _ _ _ i, where h = "''/root''" and n = 2])
       (simp_all add: w_def)
  then show ?thesis by (rule conjunct1)
qed

theorem second_startup_stable_witness:
  "initialize \<lparr>home = Some ''/root'', files = [rc_path ''/root'' \<mapsto> encode_config (default_config ''/root'')],
      open_ok = True, read_ok = True, write_ok = True, log = [corrupt_msg]\<rparr> =
   Inr (\<lparr>conf = rwlock_new (default_config ''/root'')\<rparr>,
      \<lparr>home = Some ''/root'', files = [rc_path ''/root'' \<mapsto> encode_config (default_config ''/root'')],
       open_ok = True, read_ok = True, write_ok = True, log = [corrupt_msg]\<rparr>)"
proof -
  define w where "w = \<lparr>home = Some ''/root'', files = Map.empty, open_ok = True, read_ok = True,
      write_ok = True, log = []\<rparr>"
  have i: "initialize w = Inr (\<lparr>conf = rwlock_new (default_config ''/root'')\<rparr>,
      \<lparr>home = Some ''/root'', files = [rc_path ''/root'' \<mapsto> encode_config (default_config ''/root'')],
       open_ok = True, read_ok = True, write_ok = True, log = [corrupt_msg]\<rparr>)"
    by (simp add: w_def initialize_opened file_text_def json_decode_config_empty write_str_def info_def)
  show ?thesis
    by (rule second_startup_stable [OF _ _ _ _ _ i]) (simp_all add: w_def)
qed

theorem restarts_grow_file_witness:
  "\<exists>w'. startups 2 \<lparr>home = Some ''/root'', files = [rc_path ''/root'' \<mapsto> ''x''], open_ok = True,
      read_ok = True, write_ok = True, log = []\<rparr> = Inr w' \<and>
    log w' = [corrupt_msg, corrupt_msg] \<and>
    files w' (rc_path ''/root'') =
      Some (''x'' @ encode_config (default_config ''/root'') @ encode_config (default_config ''/root''))"
  using restarts_grow_file [of "\<lparr>home = Some ''/root'', files = [rc_path ''/root'' \<mapsto> ''x''], open_ok = True,
      read_ok = True, write_ok = True, log = []\<rparr>" "''/root''" "''x''" "CHR ''x''" "[]" 2]
  by (simp add: is_ws_def value_start_def is_digit_def numeral_2_eq_2)


theorem reload_refines_replace_witness:
  "\<exists>l' w'. reload \<lparr>home = Some ''/root'', files = [rc_path ''/root'' \<mapsto> encode_config (default_config ''/b'')],
      open_ok = True, read_ok = True, write_ok = True, log = []\<rparr> (cl (init_sys (default_config ''/a'') 1)) =
      Inr (l', w') \<and> current l' = default_config ''/b''"
proof -
  define w where "w = \<lparr>home = Some ''/root'', files = [rc_path ''/root'' \<mapsto> encode_config (default_config ''/b'')],
      open_ok = True, read_ok = True, write_ok = True, log = []\<rparr>"
  define s where "s = init_sys (default_config ''/a'') 1"
  have ng: "no_guard_alive s" by (simp add: s_def no_guard_alive_def init_sys_def)
  have S: "loaded_snapshot ''/root'' (encode_config (default_config ''/b'')) = default_config ''/b''"
    by (simp add: loaded_snapshot_def codec_roundtrip)
  from reload_refines_replace [OF reachable.start [of "default_config ''/a''" 1, folded s_def] ng,
      of w "''/root''" "encode_config (default_config ''/b'')"]
  obtain l' w' where "reload w (cl s) = Inr (l', w')"
    and "abs_reg (s\<lparr>cl := l', installed := default_config ''/b'' # installed s\<rparr>) =
      (abs_reg s)\<lparr>slot := default_config ''/b''\<rparr>"
    unfolding S by (auto simp: w_def)
  then have "reload w (cl s) = Inr (l', w') \<and> current l' = default_config ''/b''"
    by (simp add: abs_reg_def)
  then show ?thesis unfolding w_def s_def by blast
qed

theorem reload_then_reads_witness:
  "\<exists>l' w'. reload \<lparr>home = Some ''/root'', files = [rc_path ''/root'' \<mapsto> encode_config (default_config ''/b'')],
      open_ok = True, read_ok = True, write_ok = True, log = []\<rparr> (cl (init_sys (default_config ''/a'') 2)) =
      Inr (l', w') \<and>
    current (cl ((init_sys (default_config ''/a'') 2)\<lparr>cl := l',
      installed := [default_config ''/b'', default_config ''/a'']\<rparr>)) = default_config ''/b''"
proof -
  define w where "w = \<lparr>home = Some ''/root'', files = [rc_path ''/root'' \<mapsto> encode_config (default_config ''/b'')],
      open_ok = True, read_ok = True, write_ok = True, log = []\<rparr>"
  define s where "s = init_sys (default_config ''/a'') 2"
  have S: "loaded_snapshot ''/root'' (encode_config (default_config ''/b'')) = default_config ''/b''"
    by (simp add: loaded_snapshot_def codec_roundtrip)
  have idle: "\<forall>p \<in> set (pcs s). p = Idle" by (simp add: s_def init_sys_def)
  obtain l' w' where r: "reload w (cl s) = Inr (l', w')"
    using reload_opened [of w "''/root''" "encode_config (default_config ''/b'')" "cl s"] by (auto simp: w_def)
  have "current (cl (s\<lparr>cl := l', installed := loaded_snapshot ''/root'' (encode_config (default_config ''/b'')) # installed s\<rparr>)) =
      loaded_snapshot ''/root'' (encode_config (default_config ''/b'')) \<and>
    (\<forall>c. Returned c \<in> set (pcs (s\<lparr>cl := l', installed := loaded_snapshot ''/root'' (encode_config (default_config ''/b'')) # installed s\<rparr>)) \<longrightarrow>
      c = loaded_snapshot ''/root'' (encode_config (default_config ''/b'')))"
    by (rule reload_then_reads [OF reachable.start [of "default_config ''/a''" 2, folded s_def] idle _ _ _ _ r])
       (simp_all add: w_def)
  with r S show ?thesis unfolding w_def s_def by (auto simp: init_sys_def)
qed

theorem reload_installs_witness:
  "\<exists>l' w'. reload \<lparr>home = Some ''/root'', files = [rc_path ''/root'' \<mapsto> ''x''], open_ok = True,
      read_ok = True, write_ok = True, log = []\<rparr> \<lparr>conf = rwlock_new (default_config ''/a'')\<rparr> = Inr (l', w') \<and>
    current l' = default_config ''/root''"
proof -
  have "json_decode_config ''x'' = Inl (ParseError InvalidSyntax)"
    by (simp add: json_decode_config_def json_from_str_def parse_scalar_def is_digit_def is_ws_def)
  with reload_installs [of "\<lparr>home = Some ''/root'', files = [rc_path ''/root'' \<mapsto> ''x''], open_ok = True,
      read_ok = True, write_ok = True, log = []\<rparr>" "''/root''" "''x''" "\<lparr>conf = rwlock_new (default_config ''/a'')\<rparr>"]
  show ?thesis by simp
qed

theorem restarts_grow_object_file_witness:
  "\<exists>w'. startups 2 \<lparr>home = Some ''/root'', files = [rc_path ''/root'' \<mapsto> ''{}''], open_ok = True,
      read_ok = True, write_ok = True, log = []\<rparr> = Inr w' \<and>
    log w' = [corrupt_msg, corrupt_msg] \<and>
    files w' (rc_path ''/root'') =
      Some (''{}'' @ encode_config (default_config ''/root'') @ encode_config (default_config ''/root''))"
proof -
  have "config_from_json (Object []) = Inl (MissingFieldError ''focus_follows_mouse'')"
    by (simp add: config_from_json_def read_struct_field_def lookup_last_def read_bool_def)
  from restarts_grow_object_file [of "\<lparr>home = Some ''/root'', files = [rc_path ''/root'' \<mapsto> ''{}''],
      open_ok = True, read_ok = True, write_ok = True, log = []\<rparr>" "''/root''" "[]", OF _ _ _ _ _ _ this, of 2]
  show ?thesis by (simp add: numeral_2_eq_2)
qed

theorem restarts_keep_user_text_witness:
  "\<exists>w'. startups 1 \<lparr>home = Some ''/root'', files = [rc_path ''/root'' \<mapsto> ''x''], open_ok = True,
      read_ok = True, write_ok = True, log = []\<rparr> = Inr w' \<and>
    (\<exists>t. files w' (rc_path ''/root'') = Some (''x'' @ t))"
proof -
  define w where "w = \<lparr>home = Some ''/root'', files = [rc_path ''/root'' \<mapsto> ''x''], open_ok = True,
      read_ok = True, write_ok = True, log = []\<rparr>"
  have "initialize w = Inr (\<lparr>conf = rwlock_new (default_config ''/root'')\<rparr>,
    w\<lparr>files := (files w)(rc_path ''/root'' \<mapsto> ''x'' @ encode_config (default_config ''/root'')),
      log := log w @ [corrupt_msg]\<rparr>)"
    by (rule startup_on_bad_start [where d = "CHR ''x''" and r = "[]"])
       (simp_all add: w_def is_ws_def value_start_def is_digit_def)
  then obtain w' where s: "startups 1 w = Inr w'" by (simp add: sbind_def)
  have "home w = Some ''/root''" by (simp add: w_def)
  from restarts_keep_user_text [OF this s] have "\<exists>t. files w' (rc_path ''/root'') = Some (''x'' @ t)"
    by (simp add: w_def)
  with s show ?thesis unfolding w_def by blast
qed

end
